theory Spec2Isabelle
  imports Main
begin

section \<open>Supervision of mock agent processes (dev/start_mock_agents.py)\<close>

text \<open>
  The script launches one child process per agent definition, polls the children once
  per second, reports each child that has exited, and on an operator interrupt shuts
  the children down (SIGTERM to all, then a bounded wait and SIGKILL per child).

  Time is counted in seconds as a natural number. A child process is a record that
  holds both what the operating system will do with it (when it exits by itself, how
  long it needs to react to SIGTERM, what it wrote) and the state of the Python
  \<^verbatim>\<open>Popen\<close> object (\<^verbatim>\<open>returncode\<close>, the unread output, the signals sent so far).

  Polling, logging and sending a signal take no time; \<^verbatim>\<open>time.sleep(1)\<close> and
  \<^verbatim>\<open>wait(timeout)\<close> are the only calls during which time passes. The operator's
  interrupt is modelled where the script handles it, in the monitor's loop and at the
  prompt of \<^verbatim>\<open>main\<close>. \<^verbatim>\<open>subprocess.Popen\<close> is taken to succeed (the interpreter that runs
  the script is the executable), and the environment passed to the children is left
  out. \<^verbatim>\<open>discover_agents\<close>, \<^verbatim>\<open>load_config\<close> and \<^verbatim>\<open>check_crossbar_connection\<close> are
  read as results given from outside.
\<close>

subsection \<open>Constants of the module\<close>

definition EXIT_SUCCESS :: int where "EXIT_SUCCESS = 0"
definition EXIT_CONFIG_ERROR :: int where "EXIT_CONFIG_ERROR = 1"
definition EXIT_AGENT_DIR_NOT_FOUND :: int where "EXIT_AGENT_DIR_NOT_FOUND = 2"
definition EXIT_NO_AGENTS :: int where "EXIT_NO_AGENTS = 3"
definition EXIT_USER_ABORT :: int where "EXIT_USER_ABORT = 130"

definition PROCESS_TERMINATE_TIMEOUT :: nat where "PROCESS_TERMINATE_TIMEOUT = 5"

text \<open>The argument of \<^verbatim>\<open>time.sleep(1)\<close> in the polling loop.\<close>

definition POLL_INTERVAL :: nat where "POLL_INTERVAL = 1"

subsection \<open>Logging\<close>

text \<open>
  A call \<^verbatim>\<open>log.warning(fmt, a, b)\<close> is recorded as the level, the format string and
  the arguments, in the order of the calls.
\<close>

datatype level = DEBUG | INFO | WARNING | ERROR

text \<open>
  A \<^verbatim>\<open>pathlib.Path\<close> is kept as it was built: from a string, or with the \<^verbatim>\<open>/\<close> operator
  from a directory and a file name.
\<close>

datatype path = Path string | Div path string

fun parent :: "path \<Rightarrow> path" where
  "parent (Div d name) = d"
| "parent (Path s) = Path s"

datatype arg = Str string | Num int | Strs "string list" | Pth path | Cmd "arg list" | PyNone

type_synonym log_record = "level \<times> string \<times> arg list"

subsection \<open>Child processes\<close>

record popen =
  pid :: nat
  exits_at :: "nat option"
  exit_status :: int
  term_delay :: "nat option"
  stdout :: "string option"
  returncode :: "int option"
  terminated_at :: "nat option"
  killed_at :: "nat option"

text \<open>
  \<open>exits_at\<close> is the time at which the child ends by itself (\<open>None\<close>: it runs until
  it is signalled), with status \<open>exit_status\<close>; \<open>term_delay\<close> is the time it needs to
  end after a SIGTERM (\<open>None\<close>: it ignores SIGTERM); \<open>stdout\<close> is the unread text of
  the pipe that captures stdout and stderr (\<open>None\<close>: no pipe). The last three fields
  are what the supervisor has done or seen: the cached \<^verbatim>\<open>returncode\<close> and the times
  of the first SIGTERM and SIGKILL delivered.
\<close>

type_synonym handle = "string \<times> popen"

fun earlier :: "(nat \<times> int) option \<Rightarrow> (nat \<times> int) option \<Rightarrow> (nat \<times> int) option" where
  "earlier None b = b"
| "earlier (Some a) None = Some a"
| "earlier (Some (ta, ra)) (Some (tb, rb)) = (if tb < ta then Some (tb, rb) else Some (ta, ra))"

text \<open>
  When and with which status the child is gone: by itself, \<open>term_delay\<close> after the
  SIGTERM (status \<open>-15\<close>), or at the SIGKILL (status \<open>-9\<close>), whichever is first.
\<close>

definition death :: "popen \<Rightarrow> (nat \<times> int) option" where
  "death p =
     earlier
       (earlier
          (case exits_at p of None \<Rightarrow> None | Some t \<Rightarrow> Some (t, exit_status p))
          (case terminated_at p of
             None \<Rightarrow> None
           | Some t \<Rightarrow> (case term_delay p of None \<Rightarrow> None | Some d \<Rightarrow> Some (t + d, - 15))))
       (case killed_at p of None \<Rightarrow> None | Some t \<Rightarrow> Some (t, - 9))"

text \<open>\<^verbatim>\<open>Popen.poll()\<close> at time \<open>t\<close>: the status if the child is gone, cached in the object.\<close>

definition poll :: "nat \<Rightarrow> popen \<Rightarrow> int option \<times> popen" where
  "poll t p =
     (case returncode p of
        Some rc \<Rightarrow> (Some rc, p)
      | None \<Rightarrow>
          (case death p of
             None \<Rightarrow> (None, p)
           | Some (d, rc) \<Rightarrow>
               if d \<le> t then (Some rc, p\<lparr>returncode := Some rc\<rparr>) else (None, p)))"

text \<open>
  \<^verbatim>\<open>Popen.terminate()\<close> and \<^verbatim>\<open>Popen.kill()\<close> are \<^verbatim>\<open>send_signal\<close>: it polls first and
  sends nothing to a child that is gone.
\<close>

definition terminate :: "nat \<Rightarrow> popen \<Rightarrow> popen" where
  "terminate t p =
     (case poll t p of
        (Some rc, p') \<Rightarrow> p'
      | (None, p') \<Rightarrow>
          (case terminated_at p' of None \<Rightarrow> p'\<lparr>terminated_at := Some t\<rparr> | Some t0 \<Rightarrow> p'))"

definition kill :: "nat \<Rightarrow> popen \<Rightarrow> popen" where
  "kill t p =
     (case poll t p of
        (Some rc, p') \<Rightarrow> p'
      | (None, p') \<Rightarrow>
          (case killed_at p' of None \<Rightarrow> p'\<lparr>killed_at := Some t\<rparr> | Some t0 \<Rightarrow> p'))"

datatype error = TimeoutExpired

text \<open>
  \<^verbatim>\<open>Popen.wait(timeout)\<close> begun at time \<open>t\<close>: the result, the time at which the call
  returns or raises, and the object.
\<close>

definition wait :: "nat \<Rightarrow> nat \<Rightarrow> popen \<Rightarrow> (error + int) \<times> nat \<times> popen" where
  "wait t timeout p =
     (case returncode p of
        Some rc \<Rightarrow> (Inr rc, t, p)
      | None \<Rightarrow>
          (case death p of
             None \<Rightarrow> (Inl TimeoutExpired, t + timeout, p)
           | Some (d, rc) \<Rightarrow>
               if d \<le> t + timeout then (Inr rc, max t d, p\<lparr>returncode := Some rc\<rparr>)
               else (Inl TimeoutExpired, t + timeout, p)))"

text \<open>The calls on child processes that the claims are about, with time and pid.\<close>

datatype call = Terminate | Wait | Kill

type_synonym event = "nat \<times> nat \<times> call"

subsection \<open>Text of a report\<close>

text \<open>
  A text is a sequence of characters with code points below 256. \<^verbatim>\<open>str.strip()\<close> removes
  the characters for which \<^verbatim>\<open>str.isspace()\<close> holds from both ends; among these code
  points they are tab, line feed, vertical tab, form feed, carriage return, the four
  separators \<open>0x1C\<close> to \<open>0x1F\<close>, the space, the next-line character \<open>0x85\<close> and the
  no-break space \<open>0xA0\<close>. \<^verbatim>\<open>str.split("\n")\<close> cuts at every line feed.
\<close>

definition isspace :: "char \<Rightarrow> bool" where
  "isspace c = (c \<in> set [CHR 0x09, CHR 0x0A, CHR 0x0B, CHR 0x0C, CHR 0x0D,
                           CHR 0x1C, CHR 0x1D, CHR 0x1E, CHR 0x1F, CHR 0x20,
                           CHR 0x85, CHR 0xA0])"

definition strip :: "string \<Rightarrow> string" where
  "strip s = rev (dropWhile isspace (rev (dropWhile isspace s)))"

fun split_nl :: "string \<Rightarrow> string list" where
  "split_nl [] = [[]]"
| "split_nl (c # cs) =
     (if c = CHR 0x0A then [] # split_nl cs
      else (case split_nl cs of [] \<Rightarrow> [[c]] | l # ls \<Rightarrow> (c # l) # ls))"

subsection \<open>handle_dead_agent\<close>

text \<open>
  \<^verbatim>\<open>
  log.warning("Agent %s exited with code %d", name, proc.returncode)
  if proc.stdout:
      output = proc.stdout.read()
      if output:
          for line in output.strip().split("\n"):
              log.warning("  %s: %s", name, line)
  \<close>
  Reading the pipe leaves it empty.
\<close>

definition handle_dead_agent :: "string \<Rightarrow> popen \<Rightarrow> log_record list \<times> popen" where
  "handle_dead_agent name proc =
     (let status = (WARNING, ''Agent %s exited with code %d'',
                    [Str name, (case returncode proc of None \<Rightarrow> PyNone | Some rc \<Rightarrow> Num rc)])
      in case stdout proc of
           None \<Rightarrow> ([status], proc)
         | Some output \<Rightarrow>
             (if output \<noteq> []
              then (status # map (\<lambda>line. (WARNING, ''  %s: %s'', [Str name, Str line]))
                                 (split_nl (strip output)),
                    proc\<lparr>stdout := Some []\<rparr>)
              else ([status], proc\<lparr>stdout := Some []\<rparr>)))"

subsection \<open>monitor_processes and shutdown_agents\<close>

text \<open>
  The body of \<^verbatim>\<open>for name, proc in processes\<close> of the monitor at time \<open>t\<close>, with the
  loop's variables \<^verbatim>\<open>alive_count\<close> and \<^verbatim>\<open>reported_dead\<close> and the log written so far.
\<close>

fun poll_all ::
  "nat \<Rightarrow> handle list \<Rightarrow> nat \<Rightarrow> string set \<Rightarrow> log_record list
     \<Rightarrow> handle list \<times> nat \<times> string set \<times> log_record list" where
  "poll_all t [] alive_count reported_dead lg = ([], alive_count, reported_dead, lg)"
| "poll_all t ((name, proc) # rest) alive_count reported_dead lg =
     (case poll t proc of
        (None, proc') \<Rightarrow>
          (case poll_all t rest (alive_count + 1) reported_dead lg of
             (rest', r) \<Rightarrow> ((name, proc') # rest', r))
      | (Some rc, proc') \<Rightarrow>
          if name \<notin> reported_dead then
            (case handle_dead_agent name proc' of
               (out, proc'') \<Rightarrow>
                 (case poll_all t rest alive_count (insert name reported_dead) (lg @ out) of
                    (rest', r) \<Rightarrow> ((name, proc'') # rest', r)))
          else
            (case poll_all t rest alive_count reported_dead lg of
               (rest', r) \<Rightarrow> ((name, proc') # rest', r)))"

text \<open>
  A \<^verbatim>\<open>KeyboardInterrupt\<close> is given as \<open>Some (c, k)\<close>: it is raised in the polling cycle
  at time \<open>c\<close>, before the \<open>k\<close>-th handle is polled, or, when the cycle has fewer than
  \<open>k + 1\<close> handles, in the \<^verbatim>\<open>time.sleep(1)\<close> that follows the cycle.
\<close>

definition interrupt_at :: "(nat \<times> nat) option \<Rightarrow> nat \<Rightarrow> nat option" where
  "interrupt_at intr t =
     (case intr of None \<Rightarrow> None | Some (c, k) \<Rightarrow> if c = t then Some k else None)"

text \<open>
  The \<^verbatim>\<open>while True\<close> loop, with fuel one per polling cycle: \<open>None\<close> is a loop that is
  still running when the fuel is used up. The result says whether the loop was left by
  the interrupt, at what time, and gives the handles, \<^verbatim>\<open>reported_dead\<close> and the log.
\<close>

fun monitor_loop ::
  "nat \<Rightarrow> (nat \<times> nat) option \<Rightarrow> nat \<Rightarrow> handle list \<Rightarrow> string set \<Rightarrow> log_record list
     \<Rightarrow> (bool \<times> nat \<times> handle list \<times> string set \<times> log_record list) option" where
  "monitor_loop 0 intr t processes reported_dead lg = None"
| "monitor_loop (Suc fuel) intr t processes reported_dead lg =
     (case (case interrupt_at intr t of
              None \<Rightarrow> None
            | Some k \<Rightarrow> if k < length processes then Some k else None) of
        Some k \<Rightarrow>
          (case poll_all t (take k processes) 0 reported_dead lg of
             (polled, alive_count, reported_dead', lg') \<Rightarrow>
               Some (True, t, polled @ drop k processes, reported_dead', lg'))
      | None \<Rightarrow>
          (case poll_all t processes 0 reported_dead lg of
             (processes', alive_count, reported_dead', lg') \<Rightarrow>
               if alive_count = 0
               then Some (False, t, processes', reported_dead',
                          lg' @ [(INFO, ''All agents have exited'', [])])
               else if interrupt_at intr t \<noteq> None
               then Some (True, t, processes', reported_dead', lg')
               else monitor_loop fuel intr (t + POLL_INTERVAL) processes' reported_dead' lg'))"

text \<open>The first loop of \<^verbatim>\<open>shutdown_agents\<close>: SIGTERM to every child that is running.\<close>

fun terminate_all :: "nat \<Rightarrow> handle list \<Rightarrow> handle list \<times> log_record list \<times> event list" where
  "terminate_all t [] = ([], [], [])"
| "terminate_all t ((name, proc) # rest) =
     (case terminate_all t rest of
        (rest', lg, evs) \<Rightarrow>
          (case poll t proc of
             (None, proc') \<Rightarrow>
               ((name, terminate t proc') # rest',
                (DEBUG, ''Terminating %s'', [Str name]) # lg,
                (t, pid proc, Terminate) # evs)
           | (Some rc, proc') \<Rightarrow> ((name, proc') # rest', lg, evs)))"

text \<open>
  The second loop: \<^verbatim>\<open>proc.wait(timeout=PROCESS_TERMINATE_TIMEOUT)\<close> on each handle in
  turn, and \<^verbatim>\<open>proc.kill()\<close> when it raises \<^verbatim>\<open>TimeoutExpired\<close>. The first component is
  the time at which the loop is done.
\<close>

fun wait_all :: "nat \<Rightarrow> handle list \<Rightarrow> nat \<times> handle list \<times> log_record list \<times> event list" where
  "wait_all t [] = (t, [], [], [])"
| "wait_all t ((name, proc) # rest) =
     (case wait t PROCESS_TERMINATE_TIMEOUT proc of
        (Inr rc, t1, proc') \<Rightarrow>
          (case wait_all t1 rest of
             (t2, rest', lg, evs) \<Rightarrow>
               (t2, (name, proc') # rest',
                (DEBUG, ''%s terminated'', [Str name]) # lg,
                (t, pid proc, Wait) # evs))
      | (Inl TimeoutExpired, t1, proc') \<Rightarrow>
          (case wait_all t1 rest of
             (t2, rest', lg, evs) \<Rightarrow>
               (t2, (name, kill t1 proc') # rest',
                (WARNING, ''%s did not terminate, killing'', [Str name]) # lg,
                (t, pid proc, Wait) # (t1, pid proc, Kill) # evs)))"

definition shutdown_agents ::
  "nat \<Rightarrow> handle list \<Rightarrow> nat \<times> handle list \<times> log_record list \<times> event list" where
  "shutdown_agents t processes =
     (case terminate_all t processes of
        (processes1, lg1, evs1) \<Rightarrow>
          (case wait_all t processes1 of
             (t2, processes2, lg2, evs2) \<Rightarrow>
               (t2, processes2,
                (INFO, ''Shutting down %d agent(s)...'', [Num (int (length processes))])
                  # lg1 @ lg2 @ [(INFO, ''Shutdown complete'', [])],
                evs1 @ evs2)))"

text \<open>What a run of \<^verbatim>\<open>monitor_processes\<close> leaves behind.\<close>

record run =
  cancelled :: bool
  finished_at :: nat
  handles :: "handle list"
  reported :: "string set"
  logged :: "log_record list"
  events :: "event list"

definition monitor_processes ::
  "nat \<Rightarrow> (nat \<times> nat) option \<Rightarrow> nat \<Rightarrow> handle list \<Rightarrow> run option" where
  "monitor_processes fuel intr t0 processes =
     (case monitor_loop fuel intr t0 processes {} [] of
        None \<Rightarrow> None
      | Some (interrupted, t, processes', reported_dead, lg) \<Rightarrow>
          if interrupted then
            (case shutdown_agents t processes' of
               (t2, processes2, lg2, evs) \<Rightarrow>
                 Some \<lparr>cancelled = True, finished_at = t2, handles = processes2,
                       reported = reported_dead,
                       logged = lg @ (INFO, ''Received interrupt signal'', []) # lg2,
                       events = evs\<rparr>)
          else
            Some \<lparr>cancelled = False, finished_at = t, handles = processes',
                  reported = reported_dead, logged = lg, events = []\<rparr>)"

subsection \<open>start_agents\<close>

text \<open>
  What the operating system will do with a child: when it exits by itself, with which
  status, how long it needs after a SIGTERM, and what it writes to stdout and stderr.
\<close>

type_synonym child = "nat option \<times> int \<times> nat option \<times> string"

text \<open>
  \<^verbatim>\<open>subprocess.Popen(cmd, stdout=subprocess.PIPE, stderr=subprocess.STDOUT, text=True, env=env)\<close>
  for a child with the given behaviour and pid.
\<close>

definition Popen :: "child \<Rightarrow> nat \<Rightarrow> popen" where
  "Popen c i =
     (case c of
        (e, status, d, out) \<Rightarrow>
          \<lparr>pid = i, exits_at = e, exit_status = status, term_delay = d, stdout = Some out,
           returncode = None, terminated_at = None, killed_at = None\<rparr>)"

datatype input_result = Line string | EOFError | KeyboardInterrupt

record config =
  crossbar_url :: string
  realm :: string
  address_root :: string
  agents :: "string list"

text \<open>
  Everything \<^verbatim>\<open>main\<close> reads from outside: the parsed arguments, the file system, the
  results of \<^verbatim>\<open>discover_agents\<close>, \<^verbatim>\<open>load_config\<close> (an exit code or the configuration)
  and \<^verbatim>\<open>check_crossbar_connection\<close>, what \<^verbatim>\<open>input\<close> returns or raises, the behaviour of
  the child started by a command line, and the operator's interrupt of the monitor.
\<close>

record world =
  sys_executable :: string
  SCRIPT_DIR :: path
  arg_agent_dir :: path
  arg_config :: string
  arg_config_is_absolute :: bool
  arg_list_agents :: bool
  path_exists :: "path \<Rightarrow> bool"
  discover_agents :: "path \<Rightarrow> string list"
  load_config :: "path \<Rightarrow> int + config"
  check_crossbar_connection :: "string \<Rightarrow> bool"
  input :: input_result
  os_run :: "arg list \<Rightarrow> child"
  interrupt :: "(nat \<times> nat) option"

definition start_agent_process ::
  "world \<Rightarrow> path \<Rightarrow> string \<Rightarrow> string \<Rightarrow> string \<Rightarrow> string \<Rightarrow> nat
     \<Rightarrow> popen \<times> log_record list" where
  "start_agent_process w agent_script agent_yaml url rlm root i =
     (let yaml_path = Div (parent agent_script) agent_yaml;
          cmd = [Str (sys_executable w), Pth agent_script,
                 Str ''--site-host'', Str ''none'',
                 Str ''--site-hub'', Str url,
                 Str ''--site-realm'', Str rlm,
                 Str ''--address-root'', Str root,
                 Str ''--schema-file'', Pth yaml_path]
      in (Popen (os_run w cmd) i, [(DEBUG, ''Starting process: %s'', [Cmd cmd])]))"

text \<open>
  The loop \<^verbatim>\<open>for agent_yaml in agents\<close> of \<^verbatim>\<open>start_agents\<close>, with the list \<^verbatim>\<open>processes\<close>
  built so far. The pid of a new child is the number of children started before it.
\<close>

fun start_each ::
  "world \<Rightarrow> path \<Rightarrow> path \<Rightarrow> string \<Rightarrow> string \<Rightarrow> string \<Rightarrow> string list \<Rightarrow> handle list
     \<Rightarrow> handle list \<times> log_record list" where
  "start_each w agent_dir agent_script url rlm root [] processes = (processes, [])"
| "start_each w agent_dir agent_script url rlm root (agent_yaml # rest) processes =
     (if \<not> path_exists w (Div agent_dir agent_yaml) then
        (case start_each w agent_dir agent_script url rlm root rest processes of
           (ps, lg) \<Rightarrow>
             (ps, (WARNING, ''Agent file not found, skipping: %s'', [Str agent_yaml]) # lg))
      else
        (case start_agent_process w agent_script agent_yaml url rlm root (length processes) of
           (proc, lg0) \<Rightarrow>
             (case start_each w agent_dir agent_script url rlm root rest
                     (processes @ [(agent_yaml, proc)]) of
                (ps, lg) \<Rightarrow> (ps, (INFO, ''Starting %s'', [Str agent_yaml]) # lg0 @ lg))))"

text \<open>\<open>Inl\<close> is \<^verbatim>\<open>sys.exit\<close> with that code.\<close>

definition start_agents ::
  "world \<Rightarrow> path \<Rightarrow> string list \<Rightarrow> string \<Rightarrow> string \<Rightarrow> string
     \<Rightarrow> (int \<times> log_record list) + (handle list \<times> log_record list)" where
  "start_agents w agent_dir agnts url rlm root =
     (let agent_script = Div agent_dir ''agent.py'' in
      if \<not> path_exists w agent_script
      then Inl (EXIT_AGENT_DIR_NOT_FOUND,
                [(ERROR, ''agent.py not found at %s'', [Pth agent_script])])
      else Inr (start_each w agent_dir agent_script url rlm root agnts []))"

subsection \<open>main\<close>

text \<open>\<^verbatim>\<open>str.lower()\<close> on ASCII text.\<close>

definition lower_char :: "char \<Rightarrow> char" where
  "lower_char c =
     (case map_of (zip ''ABCDEFGHIJKLMNOPQRSTUVWXYZ'' ''abcdefghijklmnopqrstuvwxyz'') c of
        None \<Rightarrow> c
      | Some l \<Rightarrow> l)"

definition lower :: "string \<Rightarrow> string" where
  "lower s = map lower_char s"

text \<open>A line written by \<^verbatim>\<open>print\<close>: the text of the f-string and the values put into it.\<close>

type_synonym printed_line = "string \<times> arg list"

definition print_agent_list :: "path \<Rightarrow> string list \<Rightarrow> printed_line list" where
  "print_agent_list agent_dir agnts =
     (''Agent directory: {agent_dir}'', [Pth agent_dir])
     # (''\<newline>Available mock agents ({len(agents)}):'', [Num (int (length agnts))])
     # map (\<lambda>agent. (''  - {agent}'', [Str agent])) agnts"

text \<open>
  How a run of the script ends: the exit code, the children it started (as they are at
  the end), the log, what was printed, and the calls made on the children in shutdown.
\<close>

record outcome =
  exit_code :: int
  children :: "handle list"
  log_records :: "log_record list"
  printed :: "printed_line list"
  calls :: "event list"

definition exit_with ::
  "int \<Rightarrow> log_record list \<Rightarrow> printed_line list \<Rightarrow> outcome" where
  "exit_with code lg out =
     \<lparr>exit_code = code, children = [], log_records = lg, printed = out, calls = []\<rparr>"

text \<open>
  \<^verbatim>\<open>main\<close>, with the fuel of the monitor's loop; the children are started at time \<open>0\<close>.
  A run that reaches the end of \<^verbatim>\<open>main\<close> has exit code \<open>0\<close>.
\<close>

definition main :: "nat \<Rightarrow> world \<Rightarrow> outcome option" where
  "main fuel w =
     (let agent_dir = arg_agent_dir w;
          config_path = (if arg_config_is_absolute w then Path (arg_config w)
                         else Div (SCRIPT_DIR w) (arg_config w))
      in
      if \<not> path_exists w agent_dir then
        Some (exit_with EXIT_AGENT_DIR_NOT_FOUND
                [(ERROR, ''Agent directory not found: %s'', [Pth agent_dir]),
                 (ERROR, ''Make sure you're running from the dev/ directory'', [])] [])
      else
        let available_agents = discover_agents w agent_dir in
        if arg_list_agents w then
          Some (exit_with EXIT_SUCCESS [] (print_agent_list agent_dir available_agents))
        else
          (case load_config w config_path of
             Inl code \<Rightarrow> Some (exit_with code [] [])
           | Inr cfg \<Rightarrow>
               let invalid_agents = filter (\<lambda>a. a \<notin> set available_agents) (agents cfg);
                   lg1 = (if invalid_agents \<noteq> []
                          then [(WARNING, ''Configured agents not found: %s'', [Strs invalid_agents])]
                          else []);
                   agnts = (if invalid_agents \<noteq> []
                            then filter (\<lambda>a. a \<in> set available_agents) (agents cfg)
                            else agents cfg)
               in
               if agnts = [] then
                 Some (exit_with EXIT_NO_AGENTS
                         (lg1 @ [(ERROR, ''No valid agents to start'', [])]) [])
               else
                 let lg2 = lg1 @
                       [(INFO, ''Config file: %s'', [Pth config_path]),
                        (INFO, ''Agent directory: %s'', [Pth agent_dir]),
                        (INFO, ''Crossbar URL: %s'', [Str (crossbar_url cfg)]),
                        (INFO, ''Realm: %s'', [Str (realm cfg)]),
                        (INFO, ''Address root: %s'', [Str (address_root cfg)]),
                        (INFO, ''Agents: %d configured, %d available'',
                           [Num (int (length agnts)), Num (int (length available_agents))]),
                        (INFO, ''Checking crossbar connection...'', [])]
                 in
                 (case (if \<not> check_crossbar_connection w (crossbar_url cfg) then
                          (let lg3 = lg2 @
                                 [(WARNING, ''Cannot connect to crossbar at %s'', [Str (crossbar_url cfg)]),
                                  (WARNING, ''Make sure crossbar is running: docker compose up -d'', [])]
                           in case input w of
                                Line response \<Rightarrow>
                                  if lower response \<noteq> ''y''
                                  then Inl (exit_with EXIT_USER_ABORT lg3 [])
                                  else Inr lg3
                              | EOFError \<Rightarrow> Inl (exit_with EXIT_USER_ABORT lg3 [([], [])])
                              | KeyboardInterrupt \<Rightarrow> Inl (exit_with EXIT_USER_ABORT lg3 [([], [])]))
                        else Inr (lg2 @ [(INFO, ''Crossbar is reachable'', [])])) of
                    Inl stopped \<Rightarrow> Some stopped
                  | Inr lg4 \<Rightarrow>
                      (case start_agents w agent_dir agnts (crossbar_url cfg) (realm cfg)
                              (address_root cfg) of
                         Inl (code, lg5) \<Rightarrow> Some (exit_with code (lg4 @ lg5) [])
                       | Inr (processes, lg5) \<Rightarrow>
                           if processes = [] then
                             Some (exit_with EXIT_NO_AGENTS
                                     (lg4 @ lg5 @ [(ERROR, ''No agents started'', [])]) [])
                           else
                             (case monitor_processes fuel (interrupt w) 0 processes of
                                None \<Rightarrow> None
                              | Some r \<Rightarrow>
                                  Some \<lparr>exit_code = EXIT_SUCCESS, children = handles r,
                                        log_records =
                                          lg4 @ lg5 @
                                          (INFO, ''%d agent(s) started. Press Ctrl+C to stop.'',
                                             [Num (int (length processes))]) # logged r,
                                        printed = [], calls = events r\<rparr>)))))"

subsection \<open>Notions used in the statements\<close>

text \<open>The child is gone at time \<open>t\<close>: \<^verbatim>\<open>poll()\<close> at that time does not return \<^verbatim>\<open>None\<close>.\<close>

definition gone_by :: "nat \<Rightarrow> popen \<Rightarrow> bool" where
  "gone_by t p =
     (case returncode p of
        Some rc \<Rightarrow> True
      | None \<Rightarrow> (case death p of None \<Rightarrow> False | Some (d, rc) \<Rightarrow> d \<le> t))"

definition running :: "nat \<Rightarrow> popen \<Rightarrow> bool" where
  "running t p = (fst (poll t p) = None)"

text \<open>A handle's process after the first loop of a shutdown at time \<open>t\<close>.\<close>

definition sigterm :: "nat \<Rightarrow> popen \<Rightarrow> popen" where
  "sigterm t p = (case poll t p of (None, p') \<Rightarrow> terminate t p' | (Some rc, p') \<Rightarrow> p')"

definition wait_clock :: "nat \<Rightarrow> handle list \<Rightarrow> nat" where
  "wait_clock t ps = fst (wait_all t ps)"

definition wait_events :: "nat \<Rightarrow> handle list \<Rightarrow> event list" where
  "wait_events t ps = snd (snd (snd (wait_all t ps)))"

definition shutdown_events :: "nat \<Rightarrow> handle list \<Rightarrow> event list" where
  "shutdown_events t ps = snd (snd (snd (shutdown_agents t ps)))"

text \<open>
  The time at which a shutdown begun at \<open>t\<close> starts to wait on its \<open>i\<close>-th handle: when
  the waits on the handles before it are over.
\<close>

definition wait_begin :: "nat \<Rightarrow> handle list \<Rightarrow> nat \<Rightarrow> nat" where
  "wait_begin t ps i = wait_clock t (take i (fst (terminate_all t ps)))"

definition on_pid :: "nat \<Rightarrow> event list \<Rightarrow> event list" where
  "on_pid q evs = filter (\<lambda>e. fst (snd e) = q) evs"

definition kills :: "nat \<Rightarrow> event list \<Rightarrow> event list" where
  "kills q evs = filter (\<lambda>e. fst (snd e) = q \<and> snd (snd e) = Kill) evs"

text \<open>
  What stays of a handle when the state of the \<^verbatim>\<open>Popen\<close> object is put aside: the name, the
  pid and the behaviour of the child.
\<close>

definition identity_of :: "handle \<Rightarrow> handle" where
  "identity_of h =
     (fst h, (snd h)\<lparr>stdout := None, returncode := None, terminated_at := None, killed_at := None\<rparr>)"

text \<open>The records written by the first \<^verbatim>\<open>log.warning\<close> of \<^verbatim>\<open>handle_dead_agent\<close> for a name.\<close>

definition reports_for :: "string \<Rightarrow> log_record list \<Rightarrow> log_record list" where
  "reports_for n lg =
     filter (\<lambda>e. fst (snd e) = ''Agent %s exited with code %d'' \<and> take 1 (snd (snd e)) = [Str n]) lg"

text \<open>The records written by \<^verbatim>\<open>shutdown_agents\<close> at its beginning and at its end.\<close>

definition shutdown_records :: "log_record list \<Rightarrow> log_record list" where
  "shutdown_records lg =
     filter (\<lambda>e. fst (snd e) = ''Shutting down %d agent(s)...'' \<or> fst (snd e) = ''Shutdown complete'') lg"


text \<open>The log has one report for each name of \<^verbatim>\<open>reported_dead\<close> and none for any other.\<close>

definition once_each :: "string set \<Rightarrow> log_record list \<Rightarrow> bool" where
  "once_each rep lg = (\<forall>n. length (reports_for n lg) = (if n \<in> rep then 1 else 0))"

text \<open>\<^verbatim>\<open>"\n".join(lines)\<close>.\<close>

fun join_nl :: "string list \<Rightarrow> string" where
  "join_nl [] = []"
| "join_nl [l] = l"
| "join_nl (l # ls) = l @ CHR 0x0A # join_nl ls"

text \<open>
  The lines of a text, as the specification speaks of them: the pieces between line
  feeds, where a line feed at the very end closes the last line and starts no other.
\<close>

definition unterminated :: "string \<Rightarrow> string" where
  "unterminated s = (if s \<noteq> [] \<and> last s = CHR 0x0A then butlast s else s)"

definition lines_of :: "string \<Rightarrow> string list" where
  "lines_of s = (if s = [] then [] else split_nl (unterminated s))"

text \<open>A text that neither begins nor, its final line feed apart, ends with whitespace.\<close>

definition untrimmed :: "string \<Rightarrow> bool" where
  "untrimmed s = (unterminated s \<noteq> [] \<and> \<not> isspace (hd s) \<and> \<not> isspace (last (unterminated s)))"

text \<open>The two kinds of record \<^verbatim>\<open>handle_dead_agent\<close> writes.\<close>

definition output_record :: "string \<Rightarrow> string \<Rightarrow> log_record" where
  "output_record name line = (WARNING, ''  %s: %s'', [Str name, Str line])"

definition status_record :: "string \<Rightarrow> popen \<Rightarrow> log_record" where
  "status_record name proc =
     (WARNING, ''Agent %s exited with code %d'',
      [Str name, (case returncode proc of None \<Rightarrow> PyNone | Some rc \<Rightarrow> Num rc)])"

text \<open>The conditions under which \<^verbatim>\<open>main\<close> gets to the gate, and through it to the launcher.\<close>

definition config_path :: "world \<Rightarrow> path" where
  "config_path w =
     (if arg_config_is_absolute w then Path (arg_config w) else Div (SCRIPT_DIR w) (arg_config w))"

definition configured :: "world \<Rightarrow> config \<Rightarrow> bool" where
  "configured w cfg =
     (path_exists w (arg_agent_dir w) \<and> \<not> arg_list_agents w \<and> load_config w (config_path w) = Inr cfg)"

definition valid_agents :: "world \<Rightarrow> config \<Rightarrow> string list" where
  "valid_agents w cfg = filter (\<lambda>a. a \<in> set (discover_agents w (arg_agent_dir w))) (agents cfg)"

definition gate_open :: "world \<Rightarrow> config \<Rightarrow> bool" where
  "gate_open w cfg =
     (check_crossbar_connection w (crossbar_url cfg) \<or>
      (case input w of Line response \<Rightarrow> lower response = ''y'' | EOFError \<Rightarrow> False | KeyboardInterrupt \<Rightarrow> False))"

text \<open>The identifiers whose agent file exists, those whose file does not, and the warnings.\<close>

definition found :: "world \<Rightarrow> path \<Rightarrow> string list \<Rightarrow> string list" where
  "found w agent_dir agnts = filter (\<lambda>a. path_exists w (Div agent_dir a)) agnts"

definition missing :: "world \<Rightarrow> path \<Rightarrow> string list \<Rightarrow> string list" where
  "missing w agent_dir agnts = filter (\<lambda>a. \<not> path_exists w (Div agent_dir a)) agnts"

definition skip_warnings :: "log_record list \<Rightarrow> log_record list" where
  "skip_warnings lg = filter (\<lambda>e. fst (snd e) = ''Agent file not found, skipping: %s'') lg"

text \<open>A configuration and a world for the examples: every path exists but one agent file.\<close>

definition demo_config :: "string list \<Rightarrow> config" where
  "demo_config agnts =
     \<lparr>crossbar_url = ''ws://localhost:8001/ws'', realm = ''test_realm'',
      address_root = ''observatory'', agents = agnts\<rparr>"

definition demo_world :: "string list \<Rightarrow> world" where
  "demo_world agnts =
     \<lparr>sys_executable = ''python3'', SCRIPT_DIR = Path ''/repo/dev'',
      arg_agent_dir = Path ''/repo/agent'', arg_config = ''mock-agents.yaml'',
      arg_config_is_absolute = False, arg_list_agents = False,
      path_exists = (\<lambda>p. p \<noteq> Div (Path ''/repo/agent'') ''gone.yaml''),
      discover_agents = (\<lambda>d. [''a.yaml'', ''b.yaml'', ''gone.yaml'']),
      load_config = (\<lambda>p. Inr (demo_config agnts)),
      check_crossbar_connection = (\<lambda>url. True),
      input = EOFError,
      os_run = (\<lambda>cmd. (Some 1, 0, None, [])),
      interrupt = None\<rparr>"



section \<open>Properties\<close>

subsection \<open>Signals and waits\<close>

text \<open>
  The two loops of \<^verbatim>\<open>shutdown_agents\<close>, handle by handle: what the first loop leaves of a
  handle, the calls of the waiting loop on a list that is split in two, and the calls
  made on one pid when the pids are pairwise different.
\<close>

lemma poll_fst: "fst (poll t p) = None \<longleftrightarrow> \<not> gone_by t p"
  by (auto simp: poll_def gone_by_def split: option.splits prod.splits)

lemma poll_pid: "pid (snd (poll t p)) = pid p"
  by (auto simp: poll_def split: option.splits prod.splits)

lemma terminate_pid: "pid (terminate t p) = pid p"
  by (auto simp: terminate_def poll_def split: option.splits prod.splits)

lemma kill_pid: "pid (kill t p) = pid p"
  by (auto simp: kill_def poll_def split: option.splits prod.splits)

lemma sigterm_pid: "pid (sigterm t p) = pid p"
  using poll_pid[of t p]
  by (auto simp: sigterm_def terminate_pid split: option.splits prod.splits)

lemma terminate_all_handles:
  "fst (terminate_all t ps) = map (\<lambda>h. (fst h, sigterm t (snd h))) ps"
  by (induction ps) (auto simp: sigterm_def split: prod.splits option.splits)

lemma terminate_all_events:
  "snd (snd (terminate_all t ps)) =
     map (\<lambda>h. (t, pid (snd h), Terminate)) (filter (\<lambda>h. \<not> gone_by t (snd h)) ps)"
  by (induction ps) (auto simp: poll_fst[symmetric] split: prod.splits option.splits)

lemma wait_single:
  "wait t PROCESS_TERMINATE_TIMEOUT p =
     (if gone_by (t + PROCESS_TERMINATE_TIMEOUT) p
      then (Inr (the (fst (poll (t + PROCESS_TERMINATE_TIMEOUT) p))),
            fst (snd (wait t PROCESS_TERMINATE_TIMEOUT p)), snd (poll (t + PROCESS_TERMINATE_TIMEOUT) p))
      else (Inl TimeoutExpired, t + PROCESS_TERMINATE_TIMEOUT, p))"
  by (auto simp: wait_def gone_by_def poll_def split: option.splits prod.splits)

lemma wait_time: "t \<le> fst (snd (wait t d p)) \<and> fst (snd (wait t d p)) \<le> t + d"
  by (auto simp: wait_def split: option.splits prod.splits)

lemma wait_all_Cons_clock:
  "wait_clock t ((n, p) # ps) = wait_clock (fst (snd (wait t PROCESS_TERMINATE_TIMEOUT p))) ps"
  by (auto simp: wait_clock_def split: prod.splits sum.splits error.splits)

lemma wait_all_Cons_events:
  "wait_events t ((n, p) # ps) =
     (t, pid p, Wait) #
     (if gone_by (t + PROCESS_TERMINATE_TIMEOUT) p then []
      else [(t + PROCESS_TERMINATE_TIMEOUT, pid p, Kill)]) @
     wait_events (fst (snd (wait t PROCESS_TERMINATE_TIMEOUT p))) ps"
  apply (subst wait_single)
  apply (auto simp: wait_events_def  split: prod.splits sum.splits error.splits)
  apply (subst (asm) wait_single, simp)+
  done

lemma wait_clock_Nil: "wait_clock t [] = t" by (simp add: wait_clock_def)

lemma wait_events_Nil: "wait_events t [] = []" by (simp add: wait_events_def)

lemma wait_clock_append:
  "wait_clock t (xs @ ys) = wait_clock (wait_clock t xs) ys"
  by (induction xs arbitrary: t) (auto simp: wait_clock_Nil wait_all_Cons_clock)

lemma wait_events_append:
  "wait_events t (xs @ ys) = wait_events t xs @ wait_events (wait_clock t xs) ys"
  by (induction xs arbitrary: t) (auto simp: wait_clock_Nil wait_events_Nil wait_all_Cons_clock wait_all_Cons_events)

lemma wait_clock_bounds:
  "t \<le> wait_clock t ps \<and> wait_clock t ps \<le> t + PROCESS_TERMINATE_TIMEOUT * length ps"
proof (induction ps arbitrary: t)
  case Nil show ?case by (simp add: wait_clock_Nil)
next
  case (Cons a ps)
  obtain n p where a: "a = (n, p)" by (cases a)
  let ?t1 = "fst (snd (wait t PROCESS_TERMINATE_TIMEOUT p))"
  from wait_time[of t PROCESS_TERMINATE_TIMEOUT p] Cons.IH[of ?t1]
  show ?case unfolding a wait_all_Cons_clock by auto
qed

lemma wait_events_pid:
  "e \<in> set (wait_events t ps) \<Longrightarrow> fst (snd e) \<in> set (map (pid \<circ> snd) ps)"
  by (induction ps arbitrary: t) (fastforce simp: wait_events_Nil wait_all_Cons_events split: if_splits)+

lemma wait_events_not_Terminate:
  "e \<in> set (wait_events t ps) \<Longrightarrow> snd (snd e) \<noteq> Terminate"
  by (induction ps arbitrary: t) (auto simp: wait_events_Nil wait_all_Cons_events split: if_splits)

lemma wait_events_time:
  "e \<in> set (wait_events t ps) \<Longrightarrow> t \<le> fst e"
proof (induction ps arbitrary: t)
  case Nil then show ?case by (simp add: wait_events_Nil)
next
  case (Cons a ps)
  obtain n p where a: "a = (n, p)" by (cases a)
  let ?t1 = "fst (snd (wait t PROCESS_TERMINATE_TIMEOUT p))"
  from Cons.prems wait_time[of t PROCESS_TERMINATE_TIMEOUT p] Cons.IH[of ?t1]
  show ?case unfolding a wait_all_Cons_events by (auto split: if_splits)
qed

lemma shutdown_events_eq:
  "shutdown_events t ps =
     map (\<lambda>h. (t, pid (snd h), Terminate)) (filter (\<lambda>h. \<not> gone_by t (snd h)) ps) @
     wait_events t (map (\<lambda>h. (fst h, sigterm t (snd h))) ps)"
  using terminate_all_handles[of t ps] terminate_all_events[of t ps]
  by (auto simp: shutdown_events_def shutdown_agents_def wait_events_def split: prod.splits)

lemma gone_by_mono: "gone_by t p \<Longrightarrow> t \<le> t' \<Longrightarrow> gone_by t' p"
  by (auto simp: gone_by_def split: option.splits)

lemma running_gone_by: "running t p \<longleftrightarrow> \<not> gone_by t p"
  by (simp add: running_def poll_fst)

lemma wait_events_nth:
  assumes "i < length qs"
  shows "wait_events t qs =
           wait_events t (take i qs) @
           (wait_clock t (take i qs), pid (snd (qs ! i)), Wait) #
           (if gone_by (wait_clock t (take i qs) + PROCESS_TERMINATE_TIMEOUT) (snd (qs ! i)) then []
            else [(wait_clock t (take i qs) + PROCESS_TERMINATE_TIMEOUT, pid (snd (qs ! i)), Kill)]) @
           wait_events (wait_clock t (take (Suc i) qs)) (drop (Suc i) qs)"
proof -
  let ?w = "wait_clock t (take i qs)"
  obtain n p where q: "qs ! i = (n, p)" by (cases "qs ! i")
  have split: "qs = take i qs @ (n, p) # drop (Suc i) qs"
    using assms q by (metis id_take_nth_drop)
  have tk: "take (Suc i) qs = take i qs @ [(n, p)]"
    using assms q by (simp add: take_Suc_conv_app_nth)
  have "wait_events t qs = wait_events t (take i qs) @ wait_events ?w ((n, p) # drop (Suc i) qs)"
    using wait_events_append[of t "take i qs" "(n, p) # drop (Suc i) qs"] split by simp
  moreover have "wait_clock t (take (Suc i) qs) = fst (snd (wait ?w PROCESS_TERMINATE_TIMEOUT p))"
    unfolding tk wait_clock_append by (simp add: wait_all_Cons_clock wait_clock_Nil)
  ultimately show ?thesis
    by (simp add: wait_all_Cons_events q)
qed

lemma distinct_pid_take_drop:
  assumes "distinct (map (pid \<circ> snd) qs)" "i < length qs"
    and "e \<in> set (wait_events t1 (take i qs)) \<union> set (wait_events t2 (drop (Suc i) qs))"
  shows "fst (snd e) \<noteq> pid (snd (qs ! i))"
proof -
  have split: "qs = take i qs @ (qs ! i) # drop (Suc i) qs"
    using assms(2) by (rule id_take_nth_drop)
  have "distinct (map (pid \<circ> snd) (take i qs @ (qs ! i) # drop (Suc i) qs))"
    using assms(1) split by simp
  then have a: "pid (snd (qs ! i)) \<notin> set (map (pid \<circ> snd) (take i qs))"
    and b: "pid (snd (qs ! i)) \<notin> set (map (pid \<circ> snd) (drop (Suc i) qs))"
    by auto
  from assms(3) wait_events_pid[of e t1 "take i qs"] wait_events_pid[of e t2 "drop (Suc i) qs"] a b
  show ?thesis by auto
qed

lemma after_sigterm_nth:
  "i < length ps \<Longrightarrow> snd (fst (terminate_all t ps) ! i) = sigterm t (snd (ps ! i))"
  by (simp add: terminate_all_handles)

lemma after_sigterm_pids:
  "map (pid \<circ> snd) (fst (terminate_all t ps)) = map (pid \<circ> snd) ps"
  by (simp add: terminate_all_handles sigterm_pid comp_def)

lemma after_sigterm_length: "length (fst (terminate_all t ps)) = length ps"
  by (simp add: terminate_all_handles)

lemma shutdown_events_split:
  "shutdown_events t ps =
     map (\<lambda>h. (t, pid (snd h), Terminate)) (filter (\<lambda>h. running t (snd h)) ps) @
     wait_events t (fst (terminate_all t ps))"
  by (simp add: shutdown_events_eq terminate_all_handles running_gone_by)

lemma distinct_filter_nth:
  "distinct (map f xs) \<Longrightarrow> i < length xs \<Longrightarrow> filter (\<lambda>x. f x = f (xs ! i)) xs = [xs ! i]"
proof (induction xs arbitrary: i)
  case Nil
  then show ?case by simp
next
  case (Cons a xs)
  show ?case
  proof (cases i)
    case 0
    have "f a \<notin> f ` set xs"
      using Cons.prems(1) by simp
    then have "\<forall>x\<in>set xs. f x \<noteq> f a"
      by (metis imageI)
    then have "filter (\<lambda>x. f x = f a) xs = []"
      by (simp add: filter_empty_conv)
    with 0 show ?thesis by simp
  next
    case (Suc j)
    with Cons.prems have "f (xs ! j) \<in> f ` set xs" by simp
    with Cons.prems have "f a \<noteq> f (xs ! j)" by auto
    with Cons Suc show ?thesis by simp
  qed
qed

lemma on_pid_terminates:
  assumes "i < length ps" and "distinct (map (pid \<circ> snd) ps)"
  shows "on_pid (pid (snd (ps ! i)))
           (map (\<lambda>h. (t, pid (snd h), Terminate)) (filter (\<lambda>h. running t (snd h)) ps)) =
         (if running t (snd (ps ! i)) then [(t, pid (snd (ps ! i)), Terminate)] else [])"
proof -
  let ?q = "pid (snd (ps ! i))"
  have "on_pid ?q (map (\<lambda>h. (t, pid (snd h), Terminate)) (filter (\<lambda>h. running t (snd h)) ps)) =
        map (\<lambda>h. (t, pid (snd h), Terminate))
          (filter (\<lambda>h. running t (snd h)) (filter (\<lambda>h. (pid \<circ> snd) h = (pid \<circ> snd) (ps ! i)) ps))"
    by (simp add: on_pid_def filter_map comp_def conj_commute)
  also have "filter (\<lambda>h. (pid \<circ> snd) h = (pid \<circ> snd) (ps ! i)) ps = [ps ! i]"
    using assms by (intro distinct_filter_nth)
  finally show ?thesis by simp
qed

lemma on_pid_waits:
  assumes "i < length qs" and "distinct (map (pid \<circ> snd) qs)"
  shows "on_pid (pid (snd (qs ! i))) (wait_events t qs) =
           (wait_clock t (take i qs), pid (snd (qs ! i)), Wait) #
           (if gone_by (wait_clock t (take i qs) + PROCESS_TERMINATE_TIMEOUT) (snd (qs ! i)) then []
            else [(wait_clock t (take i qs) + PROCESS_TERMINATE_TIMEOUT, pid (snd (qs ! i)), Kill)])"
proof -
  let ?q = "pid (snd (qs ! i))"
  have A: "on_pid ?q (wait_events t1 (take i qs)) = []" for t1
    using distinct_pid_take_drop[OF assms(2) assms(1), of _ t1 t1]
    by (auto simp: on_pid_def filter_empty_conv)
  have B: "on_pid ?q (wait_events t2 (drop (Suc i) qs)) = []" for t2
    using distinct_pid_take_drop[OF assms(2) assms(1), of _ t2 t2]
    by (auto simp: on_pid_def filter_empty_conv)
  show ?thesis
    apply (subst wait_events_nth[OF assms(1)])
    using A B by (simp add: on_pid_def)
qed

lemma on_pid_shutdown:
  assumes "i < length ps" and "distinct (map (pid \<circ> snd) ps)"
  shows "on_pid (pid (snd (ps ! i))) (shutdown_events t ps) =
           (if running t (snd (ps ! i)) then [(t, pid (snd (ps ! i)), Terminate)] else []) @
           (wait_begin t ps i, pid (snd (ps ! i)), Wait) #
           (if gone_by (wait_begin t ps i + PROCESS_TERMINATE_TIMEOUT) (sigterm t (snd (ps ! i))) then []
            else [(wait_begin t ps i + PROCESS_TERMINATE_TIMEOUT, pid (snd (ps ! i)), Kill)])"
proof -
  let ?qs = "fst (terminate_all t ps)"
  have len: "i < length ?qs" using assms(1) by (simp add: after_sigterm_length)
  have dist: "distinct (map (pid \<circ> snd) ?qs)" using assms(2) by (simp add: after_sigterm_pids)
  have sq: "snd (?qs ! i) = sigterm t (snd (ps ! i))"
    using assms(1) by (rule after_sigterm_nth)
  have pq: "pid (snd (?qs ! i)) = pid (snd (ps ! i))"
    by (simp add: sq sigterm_pid)
  have "on_pid (pid (snd (ps ! i))) (shutdown_events t ps) =
          on_pid (pid (snd (ps ! i))) (map (\<lambda>h. (t, pid (snd h), Terminate)) (filter (\<lambda>h. running t (snd h)) ps)) @
          on_pid (pid (snd (ps ! i))) (wait_events t ?qs)"
    unfolding shutdown_events_split by (simp add: on_pid_def)
  also have "on_pid (pid (snd (ps ! i))) (wait_events t ?qs) =
           (wait_begin t ps i, pid (snd (ps ! i)), Wait) #
           (if gone_by (wait_begin t ps i + PROCESS_TERMINATE_TIMEOUT) (sigterm t (snd (ps ! i))) then []
            else [(wait_begin t ps i + PROCESS_TERMINATE_TIMEOUT, pid (snd (ps ! i)), Kill)])"
    using on_pid_waits[OF len dist, of t] unfolding sq wait_begin_def sigterm_pid .
  finally show ?thesis
    unfolding on_pid_terminates[OF assms] .
qed

lemma wait_begin_bounds:
  assumes "i < length ps"
  shows "t \<le> wait_begin t ps i \<and> wait_begin t ps i \<le> t + PROCESS_TERMINATE_TIMEOUT * i"
  using wait_clock_bounds[of t "take i (fst (terminate_all t ps))"] assms
  by (simp add: wait_begin_def after_sigterm_length)

lemma mem_on_pid: "(tk, q, c) \<in> set evs \<longleftrightarrow> (tk, q, c) \<in> set (on_pid q evs)"
  by (auto simp: on_pid_def)

subsection \<open>Shutdown\<close>

text \<open>
  Claim C2. The calls of a shutdown begun at time \<open>t\<close> are, in this order, one
  \<^verbatim>\<open>terminate()\<close> at time \<open>t\<close> for each handle that is running at \<open>t\<close>, in the order of
  the handles (a handle that has exited gets none), and then the calls of the waiting
  loop, none of which is a \<^verbatim>\<open>terminate()\<close>: every terminate request comes before
  every wait and every kill.
\<close>

theorem shutdown_sends_before_waiting:
  "shutdown_events t ps =
     map (\<lambda>h. (t, pid (snd h), Terminate)) (filter (\<lambda>h. running t (snd h)) ps) @
     wait_events t (fst (terminate_all t ps))
   \<and> (\<forall>e \<in> set (wait_events t (fst (terminate_all t ps))). snd (snd e) \<noteq> Terminate)
   \<and> (\<forall>i j. i < length (shutdown_events t ps) \<and> j < length (shutdown_events t ps)
          \<and> snd (snd (shutdown_events t ps ! i)) = Terminate
          \<and> snd (snd (shutdown_events t ps ! j)) \<noteq> Terminate \<longrightarrow> i < j)"
proof -
  let ?A = "map (\<lambda>h. (t, pid (snd h), Terminate)) (filter (\<lambda>h. running t (snd h)) ps)"
  let ?B = "wait_events t (fst (terminate_all t ps))"
  have eq: "shutdown_events t ps = ?A @ ?B" by (rule shutdown_events_split)
  have B: "\<forall>e \<in> set ?B. snd (snd e) \<noteq> Terminate"
    using wait_events_not_Terminate by blast
  have A: "\<forall>e \<in> set ?A. snd (snd e) = Terminate" by auto
  have order: "i < j" if i: "i < length (?A @ ?B)" and j: "j < length (?A @ ?B)"
    and ti: "snd (snd ((?A @ ?B) ! i)) = Terminate" and tj: "snd (snd ((?A @ ?B) ! j)) \<noteq> Terminate" for i j
  proof -
    have "i < length ?A"
    proof (rule ccontr)
      assume "\<not> i < length ?A"
      then have "(?A @ ?B) ! i = ?B ! (i - length ?A)" "i - length ?A < length ?B"
        using i by (auto simp: nth_append)
      then have "(?A @ ?B) ! i \<in> set ?B" by (metis nth_mem)
      with B ti show False by blast
    qed
    moreover have "\<not> j < length ?A"
    proof
      assume "j < length ?A"
      then have "(?A @ ?B) ! j \<in> set ?A" by (metis nth_append nth_mem)
      with A tj show False by blast
    qed
    ultimately show ?thesis by simp
  qed
  show ?thesis unfolding eq using B order by blast
qed

text \<open>A shutdown at time 3 of three children, the second of which is gone.\<close>

theorem shutdown_sends_before_waiting_witness:
  "shutdown_events 3 [(''a'', Popen (None, 0, Some 2, ''x'') 0), (''b'', Popen (Some 1, 1, None, ''y'') 1),
                      (''c'', Popen (None, 0, None, ''z'') 2)] =
     [(3, 0, Terminate), (3, 2, Terminate), (3, 0, Wait), (5, 1, Wait), (5, 2, Wait), (10, 2, Kill)]
   \<and> wait_events 3 (fst (terminate_all 3
          [(''a'', Popen (None, 0, Some 2, ''x'') 0), (''b'', Popen (Some 1, 1, None, ''y'') 1),
           (''c'', Popen (None, 0, None, ''z'') 2)])) =
     [(3, 0, Wait), (5, 1, Wait), (5, 2, Wait), (10, 2, Kill)]"
  using shutdown_sends_before_waiting
    [of 3 "[(''a'', Popen (None, 0, Some 2, ''x'') 0), (''b'', Popen (Some 1, 1, None, ''y'') 1),
            (''c'', Popen (None, 0, None, ''z'') 2)]"]
  by (simp add: running_def Popen_def poll_def death_def wait_events_def terminate_def wait_def kill_def
      PROCESS_TERMINATE_TIMEOUT_def)

text \<open>
  Claim C3, amended. The waits are made one after the other with the same timeout, so
  the grace period of a handle is counted from the moment its own wait begins, which
  is when the waits on the handles before it are over: for the \<open>i\<close>-th handle (of
  handles with different pids) that moment lies between the shutdown's terminate
  requests at \<open>t\<close> and \<open>t + 5 * i\<close>; the handle is waited on once, and it is killed
  exactly when it is not gone \<open>5\<close> after its wait began, at that moment.
\<close>

theorem shutdown_timeout_from_own_wait:
  assumes "i < length ps" and "distinct (map (pid \<circ> snd) ps)"
  shows "t \<le> wait_begin t ps i
       \<and> wait_begin t ps i \<le> t + PROCESS_TERMINATE_TIMEOUT * i
       \<and> (\<forall>tw. (tw, pid (snd (ps ! i)), Wait) \<in> set (shutdown_events t ps) \<longleftrightarrow> tw = wait_begin t ps i)
       \<and> (\<forall>tk. (tk, pid (snd (ps ! i)), Kill) \<in> set (shutdown_events t ps) \<longleftrightarrow>
                tk = wait_begin t ps i + PROCESS_TERMINATE_TIMEOUT \<and>
                \<not> gone_by (wait_begin t ps i + PROCESS_TERMINATE_TIMEOUT) (sigterm t (snd (ps ! i))))"
proof -
  have tw: "(tw, pid (snd (ps ! i)), Wait) \<in> set (shutdown_events t ps) \<longleftrightarrow> tw = wait_begin t ps i" for tw
    by (subst mem_on_pid, subst on_pid_shutdown[OF assms]) auto
  have tk: "(tk, pid (snd (ps ! i)), Kill) \<in> set (shutdown_events t ps) \<longleftrightarrow>
                tk = wait_begin t ps i + PROCESS_TERMINATE_TIMEOUT \<and>
                \<not> gone_by (wait_begin t ps i + PROCESS_TERMINATE_TIMEOUT) (sigterm t (snd (ps ! i)))" for tk
    by (subst mem_on_pid, subst on_pid_shutdown[OF assms]) auto
  from wait_begin_bounds[OF assms(1), of t] tw tk show ?thesis by blast
qed

text \<open>
  Two children: the first ignores SIGTERM, the second needs 7 to end. The wait on the
  second begins at 5 and it is gone by 10, so it is not killed.
\<close>

theorem shutdown_timeout_from_own_wait_witness:
  "1 < length [(''a'', Popen (None, 0, None, ''x'') 0), (''b'', Popen (None, 0, Some 7, ''y'') 1)]
   \<and> distinct (map (pid \<circ> snd) [(''a'', Popen (None, 0, None, ''x'') 0), (''b'', Popen (None, 0, Some 7, ''y'') 1)])
   \<and> wait_begin 0 [(''a'', Popen (None, 0, None, ''x'') 0), (''b'', Popen (None, 0, Some 7, ''y'') 1)] 1 = 5
   \<and> (\<forall>tk. (tk, 1, Kill) \<notin> set (shutdown_events 0
          [(''a'', Popen (None, 0, None, ''x'') 0), (''b'', Popen (None, 0, Some 7, ''y'') 1)]))"
proof -
  let ?ps = "[(''a'', Popen (None, 0, None, ''x'') 0), (''b'', Popen (None, 0, Some 7, ''y'') 1)]"
  have h1: "1 < length ?ps" by simp
  have h2: "distinct (map (pid \<circ> snd) ?ps)" by (simp add: Popen_def)
  have w: "wait_begin 0 ?ps 1 = 5"
    by (simp add: wait_begin_def wait_clock_def Popen_def poll_def death_def terminate_def wait_def
        PROCESS_TERMINATE_TIMEOUT_def)
  have g: "gone_by 10 (sigterm 0 (snd (?ps ! 1)))"
    by (simp add: gone_by_def sigterm_def Popen_def poll_def death_def terminate_def)
  from shutdown_timeout_from_own_wait[OF h1 h2, of 0] h1 h2 w g show ?thesis
    by (simp add: Popen_def PROCESS_TERMINATE_TIMEOUT_def)
qed

text \<open>
  Claim C3 as stated fails: of two children that ignore SIGTERM, both asked to
  terminate at time 0, the second is killed at 10, not at 5.
\<close>

theorem shutdown_timeout_counterexample:
  "shutdown_events 0 [(''a'', Popen (None, 0, None, ''x'') 0), (''b'', Popen (None, 0, None, ''y'') 1)] =
     [(0, 0, Terminate), (0, 1, Terminate), (0, 0, Wait), (5, 0, Kill), (5, 1, Wait), (10, 1, Kill)]"
  by (simp add: shutdown_events_def shutdown_agents_def Popen_def poll_def death_def terminate_def
      wait_def kill_def PROCESS_TERMINATE_TIMEOUT_def)

text \<open>
  Claim C4, amended. For the \<open>i\<close>-th handle of a shutdown begun at \<open>t\<close> (handles with
  different pids): if it is gone within the grace period after the terminate requests,
  it is not killed; it is killed at most once, and exactly once when it is not gone
  \<open>5\<close> after its own wait began; and that kill is the last call made on it.
\<close>

theorem shutdown_kill_only_after_timeout:
  assumes "i < length ps" and "distinct (map (pid \<circ> snd) ps)"
  shows "(gone_by (t + PROCESS_TERMINATE_TIMEOUT) (sigterm t (snd (ps ! i))) \<longrightarrow>
            kills (pid (snd (ps ! i))) (shutdown_events t ps) = [])
       \<and> kills (pid (snd (ps ! i))) (shutdown_events t ps) =
           (if gone_by (wait_begin t ps i + PROCESS_TERMINATE_TIMEOUT) (sigterm t (snd (ps ! i))) then []
            else [(wait_begin t ps i + PROCESS_TERMINATE_TIMEOUT, pid (snd (ps ! i)), Kill)])
       \<and> (\<not> gone_by (wait_begin t ps i + PROCESS_TERMINATE_TIMEOUT) (sigterm t (snd (ps ! i))) \<longrightarrow>
            last (on_pid (pid (snd (ps ! i))) (shutdown_events t ps)) =
              (wait_begin t ps i + PROCESS_TERMINATE_TIMEOUT, pid (snd (ps ! i)), Kill))"
proof -
  let ?q = "pid (snd (ps ! i))"
  have k: "kills ?q (shutdown_events t ps) = filter (\<lambda>e. snd (snd e) = Kill) (on_pid ?q (shutdown_events t ps))"
    by (simp add: kills_def on_pid_def conj_commute)
  have mono: "gone_by (t + PROCESS_TERMINATE_TIMEOUT) (sigterm t (snd (ps ! i))) \<Longrightarrow>
    gone_by (wait_begin t ps i + PROCESS_TERMINATE_TIMEOUT) (sigterm t (snd (ps ! i)))"
    using wait_begin_bounds[OF assms(1), of t] by (auto elim: gone_by_mono)
  show ?thesis
    unfolding k on_pid_shutdown[OF assms] using mono by auto
qed

text \<open>A child that ignores SIGTERM is killed once, at 5, and not touched again.\<close>

theorem shutdown_kill_only_after_timeout_witness:
  "0 < length [(''a'', Popen (None, 0, None, ''x'') 0), (''b'', Popen (None, 0, Some 2, ''y'') 1)]
   \<and> distinct (map (pid \<circ> snd) [(''a'', Popen (None, 0, None, ''x'') 0), (''b'', Popen (None, 0, Some 2, ''y'') 1)])
   \<and> kills 0 (shutdown_events 0 [(''a'', Popen (None, 0, None, ''x'') 0), (''b'', Popen (None, 0, Some 2, ''y'') 1)])
       = [(5, 0, Kill)]
   \<and> last (on_pid 0 (shutdown_events 0 [(''a'', Popen (None, 0, None, ''x'') 0), (''b'', Popen (None, 0, Some 2, ''y'') 1)]))
       = (5, 0, Kill)"
proof -
  let ?ps = "[(''a'', Popen (None, 0, None, ''x'') 0), (''b'', Popen (None, 0, Some 2, ''y'') 1)]"
  have h1: "0 < length ?ps" by simp
  have h2: "distinct (map (pid \<circ> snd) ?ps)" by (simp add: Popen_def)
  have w: "wait_begin 0 ?ps 0 = 0"
    by (simp add: wait_begin_def wait_clock_def)
  have g: "\<not> gone_by 5 (sigterm 0 (snd (?ps ! 0)))"
    by (simp add: gone_by_def sigterm_def Popen_def poll_def death_def terminate_def)
  from shutdown_kill_only_after_timeout[OF h1 h2, of 0] h1 h2 w g show ?thesis
    by (simp add: Popen_def PROCESS_TERMINATE_TIMEOUT_def)
qed

text \<open>
  Claim C4 as stated fails: the second child is asked to terminate at 0 and is not
  gone at 5, but the wait on it begins at 5 only, it ends at 7, and it is never killed.
\<close>

theorem shutdown_kill_counterexample:
  "\<not> gone_by (0 + PROCESS_TERMINATE_TIMEOUT) (sigterm 0 (Popen (None, 0, Some 7, ''y'') 1))
   \<and> (0, 1, Terminate) \<in> set (shutdown_events 0
         [(''a'', Popen (None, 0, None, ''x'') 0), (''b'', Popen (None, 0, Some 7, ''y'') 1)])
   \<and> kills 1 (shutdown_events 0
         [(''a'', Popen (None, 0, None, ''x'') 0), (''b'', Popen (None, 0, Some 7, ''y'') 1)]) = []"
  by (simp add: shutdown_events_def shutdown_agents_def Popen_def poll_def death_def terminate_def
      wait_def kill_def PROCESS_TERMINATE_TIMEOUT_def gone_by_def sigterm_def kills_def)

subsection \<open>Monitor\<close>

text \<open>
  One polling cycle keeps the handles' identities, counts the running children, adds
  the names of the children that are gone to \<^verbatim>\<open>reported_dead\<close> and writes one report for
  each name it adds. The loop keeps these facts from cycle to cycle, and it ends within
  the fuel when every child exits by itself.
\<close>

lemma poll_identity: "identity_of (n, snd (poll t p)) = identity_of (n, p)"
  by (auto simp: identity_of_def poll_def split: option.splits)

lemma terminate_identity: "identity_of (n, terminate t p) = identity_of (n, p)"
  by (auto simp: identity_of_def terminate_def poll_def split: option.splits)

lemma kill_identity: "identity_of (n, kill t p) = identity_of (n, p)"
  by (auto simp: identity_of_def kill_def poll_def split: option.splits)

lemma wait_identity: "identity_of (n, snd (snd (wait t d p))) = identity_of (n, p)"
  by (auto simp: identity_of_def wait_def split: option.splits)

lemma hda_identity: "identity_of (n, snd (handle_dead_agent name p)) = identity_of (n, p)"
  by (auto simp: identity_of_def handle_dead_agent_def Let_def split: option.splits)

lemma hda_reports:
  "length (reports_for n (fst (handle_dead_agent name p))) = (if n = name then 1 else 0)"
  by (auto simp: reports_for_def handle_dead_agent_def Let_def filter_empty_conv split: option.splits)

lemma hda_shutdown_records: "shutdown_records (fst (handle_dead_agent name p)) = []"
  by (auto simp: shutdown_records_def handle_dead_agent_def Let_def filter_empty_conv split: option.splits)

lemma reports_for_append: "reports_for n (xs @ ys) = reports_for n xs @ reports_for n ys"
  by (simp add: reports_for_def)

lemma shutdown_records_append:
  "shutdown_records (xs @ ys) = shutdown_records xs @ shutdown_records ys"
  by (simp add: shutdown_records_def)

lemma poll_all_Cons:
  "poll_all t ((n, p) # rest) a rep lg =
     (if running t p then apfst ((#) (n, snd (poll t p))) (poll_all t rest (a + 1) rep lg)
      else if n \<notin> rep then
        apfst ((#) (n, snd (handle_dead_agent n (snd (poll t p)))))
          (poll_all t rest a (insert n rep) (lg @ fst (handle_dead_agent n (snd (poll t p)))))
      else apfst ((#) (n, snd (poll t p))) (poll_all t rest a rep lg))"
  by (auto simp: running_def split: prod.splits option.splits)

declare poll_all.simps(2) [simp del]

lemma poll_all_identity:
  "map identity_of (fst (poll_all t ps a rep lg)) = map identity_of ps"
proof (induction ps arbitrary: a rep lg)
  case Nil
  show ?case by simp
next
  case (Cons h ps)
  obtain n p where h: "h = (n, p)" by (cases h)
  show ?case unfolding h poll_all_Cons
    by (simp add: Cons.IH poll_identity hda_identity)
qed

lemma poll_all_alive:
  "fst (snd (poll_all t ps a rep lg)) = a + length (filter (\<lambda>h. running t (snd h)) ps)"
proof (induction ps arbitrary: a rep lg)
  case Nil
  show ?case by simp
next
  case (Cons h ps)
  obtain n p where h: "h = (n, p)" by (cases h)
  show ?case unfolding h poll_all_Cons
    by (simp add: Cons.IH)
qed

lemma poll_all_reported:
  "fst (snd (snd (poll_all t ps a rep lg))) =
     rep \<union> set (map fst (filter (\<lambda>h. \<not> running t (snd h)) ps))"
proof (induction ps arbitrary: a rep lg)
  case Nil
  show ?case by simp
next
  case (Cons h ps)
  obtain n p where h: "h = (n, p)" by (cases h)
  show ?case unfolding h poll_all_Cons
    by (auto simp add: Cons.IH)
qed

lemma poll_all_log:
  "\<exists>new. snd (snd (snd (poll_all t ps a rep lg))) = lg @ new
         \<and> shutdown_records new = []
         \<and> (\<forall>n. length (reports_for n new) =
                  (if n \<in> fst (snd (snd (poll_all t ps a rep lg))) \<and> n \<notin> rep then 1 else 0))"
proof (induction ps arbitrary: a rep lg)
  case Nil
  show ?case by (simp add: reports_for_def shutdown_records_def)
next
  case (Cons h ps)
  obtain n p where h: "h = (n, p)" by (cases h)
  show ?case
  proof (cases "running t p \<or> n \<in> rep")
    case True
    then show ?thesis unfolding h poll_all_Cons using Cons.IH by auto
  next
    case False
    let ?out = "fst (handle_dead_agent n (snd (poll t p)))"
    from Cons.IH[of a "insert n rep" "lg @ ?out"]
    obtain new where new: "snd (snd (snd (poll_all t ps a (insert n rep) (lg @ ?out)))) = (lg @ ?out) @ new"
      "shutdown_records new = []"
      "\<forall>m. length (reports_for m new) =
             (if m \<in> fst (snd (snd (poll_all t ps a (insert n rep) (lg @ ?out)))) \<and> m \<notin> insert n rep then 1 else 0)"
      by blast
    have n_in: "n \<in> fst (snd (snd (poll_all t ps a (insert n rep) (lg @ ?out))))"
      by (simp add: poll_all_reported)
    have eq: "poll_all t ((n, p) # ps) a rep lg =
        apfst ((#) (n, snd (handle_dead_agent n (snd (poll t p)))))
          (poll_all t ps a (insert n rep) (lg @ ?out))"
      using False by (simp add: poll_all_Cons)
    show ?thesis unfolding h eq
      apply (rule exI[of _ "?out @ new"])
      using new n_in False
      by (auto simp: reports_for_append shutdown_records_append hda_reports hda_shutdown_records)
  qed
qed

lemma map_fst_identity: "map fst (map identity_of ps) = map fst ps"
  by (simp add: identity_of_def comp_def)

lemma identity_names:
  assumes "map identity_of ps' = map identity_of ps"
  shows "map fst ps' = map fst ps"
  using map_fst_identity[of ps'] map_fst_identity[of ps] assms by simp

lemma cycle_identity:
  "map identity_of (fst (poll_all t (take k ps) a rep lg) @ drop k ps) = map identity_of ps"
proof -
  have "map identity_of (fst (poll_all t (take k ps) a rep lg) @ drop k ps) =
        map identity_of (take k ps) @ map identity_of (drop k ps)"
    by (simp add: poll_all_identity)
  then show ?thesis
    by (simp add: take_map[symmetric] drop_map[symmetric])
qed

lemma cycle_once_each:
  assumes "once_each rep lg"
  shows "once_each (fst (snd (snd (poll_all t qs a rep lg)))) (snd (snd (snd (poll_all t qs a rep lg))))"
proof -
  from poll_all_log[of t qs a rep lg] obtain new where
    new: "snd (snd (snd (poll_all t qs a rep lg))) = lg @ new"
      "\<forall>n. length (reports_for n new) =
             (if n \<in> fst (snd (snd (poll_all t qs a rep lg))) \<and> n \<notin> rep then 1 else 0)"
    by blast
  have sub: "rep \<subseteq> fst (snd (snd (poll_all t qs a rep lg)))"
    by (simp add: poll_all_reported)
  show ?thesis
    unfolding once_each_def new(1) reports_for_append
    using assms new(2) sub by (auto simp: once_each_def)
qed

lemma cycle_shutdown_records:
  assumes "shutdown_records lg = []"
  shows "shutdown_records (snd (snd (snd (poll_all t qs a rep lg)))) = []"
  using poll_all_log[of t qs a rep lg] assms by (auto simp: shutdown_records_append)

lemma cycle_reported_subset:
  assumes "rep \<subseteq> set (map fst ps)"
  shows "fst (snd (snd (poll_all t (take k ps) a rep lg))) \<subseteq> set (map fst ps)"
proof -
  have "set (map fst (filter (\<lambda>h. \<not> running t (snd h)) (take k ps))) \<subseteq> set (map fst ps)"
    using set_take_subset[of k ps] by auto
  with assms show ?thesis by (simp add: poll_all_reported)
qed

lemma cycle_all_reported:
  assumes "fst (snd (poll_all t ps 0 rep lg)) = 0"
  shows "set (map fst ps) \<subseteq> fst (snd (snd (poll_all t ps 0 rep lg)))"
proof -
  from assms have "filter (\<lambda>h. running t (snd h)) ps = []"
    by (simp add: poll_all_alive)
  then have "filter (\<lambda>h. \<not> running t (snd h)) ps = ps"
    by (simp add: filter_empty_conv filter_id_conv)
  then show ?thesis by (simp add: poll_all_reported)
qed

lemma once_each_snoc_info:
  "once_each rep lg \<Longrightarrow> once_each rep (lg @ [(INFO, ''All agents have exited'', [])])"
  by (simp add: once_each_def reports_for_def)

lemma monitor_loop_Suc:
  "monitor_loop (Suc fuel) intr t ps rep lg =
     (if interrupt_at intr t \<noteq> None \<and> the (interrupt_at intr t) < length ps then
        Some (True, t,
              fst (poll_all t (take (the (interrupt_at intr t)) ps) 0 rep lg)
                @ drop (the (interrupt_at intr t)) ps,
              fst (snd (snd (poll_all t (take (the (interrupt_at intr t)) ps) 0 rep lg))),
              snd (snd (snd (poll_all t (take (the (interrupt_at intr t)) ps) 0 rep lg))))
      else if fst (snd (poll_all t ps 0 rep lg)) = 0 then
        Some (False, t, fst (poll_all t ps 0 rep lg), fst (snd (snd (poll_all t ps 0 rep lg))),
              snd (snd (snd (poll_all t ps 0 rep lg))) @ [(INFO, ''All agents have exited'', [])])
      else if interrupt_at intr t \<noteq> None then
        Some (True, t, fst (poll_all t ps 0 rep lg), fst (snd (snd (poll_all t ps 0 rep lg))),
              snd (snd (snd (poll_all t ps 0 rep lg))))
      else monitor_loop fuel intr (t + POLL_INTERVAL) (fst (poll_all t ps 0 rep lg))
             (fst (snd (snd (poll_all t ps 0 rep lg)))) (snd (snd (snd (poll_all t ps 0 rep lg)))))"
  by (auto split: prod.splits option.splits)

declare monitor_loop.simps(2) [simp del]

lemma monitor_loop_inv:
  assumes "monitor_loop fuel intr t ps rep lg = Some (b, t', ps', rep', lg')"
  shows "map identity_of ps' = map identity_of ps
       \<and> (once_each rep lg \<longrightarrow> once_each rep' lg')
       \<and> (rep \<subseteq> set (map fst ps) \<longrightarrow> rep' \<subseteq> set (map fst ps))
       \<and> (\<not> b \<longrightarrow> set (map fst ps) \<subseteq> rep')
       \<and> (shutdown_records lg = [] \<longrightarrow> shutdown_records lg' = [])
       \<and> (b \<longrightarrow> interrupt_at intr t' \<noteq> None)
       \<and> t \<le> t'"
  using assms
proof (induction fuel arbitrary: t ps rep lg)
  case 0
  then show ?case by simp
next
  case (Suc fuel)
  let ?k = "the (interrupt_at intr t)"
  let ?R = "poll_all t ps 0 rep lg"
  consider (early) "interrupt_at intr t \<noteq> None \<and> ?k < length ps"
    | (finished) "\<not> (interrupt_at intr t \<noteq> None \<and> ?k < length ps)" "fst (snd ?R) = 0"
    | (late) "\<not> (interrupt_at intr t \<noteq> None \<and> ?k < length ps)" "fst (snd ?R) \<noteq> 0"
        "interrupt_at intr t \<noteq> None"
    | (sleep) "\<not> (interrupt_at intr t \<noteq> None \<and> ?k < length ps)" "fst (snd ?R) \<noteq> 0"
        "interrupt_at intr t = None"
    by blast
  then show ?case
  proof cases
    case early
    with Suc.prems have res: "b" "t' = t"
      "ps' = fst (poll_all t (take ?k ps) 0 rep lg) @ drop ?k ps"
      "rep' = fst (snd (snd (poll_all t (take ?k ps) 0 rep lg)))"
      "lg' = snd (snd (snd (poll_all t (take ?k ps) 0 rep lg)))"
      by (auto simp: monitor_loop_Suc)
    show ?thesis unfolding res
      using early cycle_identity[of t ?k ps 0 rep lg] cycle_once_each[of rep lg t "take ?k ps" 0]
        cycle_reported_subset[of rep ps t ?k 0 lg] cycle_shutdown_records[of lg t "take ?k ps" 0 rep] res(1)
      by simp
  next
    case finished
    with Suc.prems have res: "\<not> b" "t' = t" "ps' = fst ?R" "rep' = fst (snd (snd ?R))"
      "lg' = snd (snd (snd ?R)) @ [(INFO, ''All agents have exited'', [])]"
      by (auto simp: monitor_loop_Suc)
    show ?thesis unfolding res
      using cycle_identity[of t "length ps" ps 0 rep lg] cycle_once_each[of rep lg t ps 0]
        cycle_reported_subset[of rep ps t "length ps" 0 lg] cycle_shutdown_records[of lg t ps 0 rep]
        cycle_all_reported[OF finished(2)] res(1)
      by (simp add: once_each_snoc_info shutdown_records_append) (simp add: shutdown_records_def)
  next
    case late
    with Suc.prems have res: "b" "t' = t" "ps' = fst ?R" "rep' = fst (snd (snd ?R))"
      "lg' = snd (snd (snd ?R))"
      by (auto simp: monitor_loop_Suc)
    show ?thesis unfolding res
      using late cycle_identity[of t "length ps" ps 0 rep lg] cycle_once_each[of rep lg t ps 0]
        cycle_reported_subset[of rep ps t "length ps" 0 lg] cycle_shutdown_records[of lg t ps 0 rep] res(1)
      by simp
  next
    case sleep
    with Suc.prems have rec: "monitor_loop fuel intr (t + POLL_INTERVAL) (fst ?R)
        (fst (snd (snd ?R))) (snd (snd (snd ?R))) = Some (b, t', ps', rep', lg')"
      by (simp add: monitor_loop_Suc)
    have id: "map identity_of (fst ?R) = map identity_of ps"
      using cycle_identity[of t "length ps" ps 0 rep lg] by simp
    have names: "map fst (fst ?R) = map fst ps"
      using id by (rule identity_names)
    from Suc.IH[OF rec] show ?thesis
      using id names cycle_once_each[of rep lg t ps 0]
        cycle_reported_subset[of rep ps t "length ps" 0 lg] cycle_shutdown_records[of lg t ps 0 rep]
      by (simp add: POLL_INTERVAL_def)
  qed
qed









lemma sigterm_identity: "identity_of (n, sigterm t p) = identity_of (n, p)"
  using poll_identity[of n t p] terminate_identity[of n t "snd (poll t p)"]
  by (auto simp: sigterm_def split: prod.splits option.splits)

lemma sigterm_identity_handle: "identity_of (fst h, sigterm t (snd h)) = identity_of h"
  using sigterm_identity[of "fst h" t "snd h"] by simp

lemma terminate_all_identity:
  "map identity_of (fst (terminate_all t ps)) = map identity_of ps"
  by (simp add: terminate_all_handles sigterm_identity_handle comp_def)

lemma wait_all_identity:
  "map identity_of (fst (snd (wait_all t ps))) = map identity_of ps"
proof (induction ps arbitrary: t)
  case Nil
  show ?case by simp
next
  case (Cons h ps)
  obtain n p where h: "h = (n, p)" by (cases h)
  obtain res t1 p1 where w: "wait t PROCESS_TERMINATE_TIMEOUT p = (res, t1, p1)"
    by (cases "wait t PROCESS_TERMINATE_TIMEOUT p") auto
  have p1: "identity_of (n, p1) = identity_of (n, p)"
    using wait_identity[of n t PROCESS_TERMINATE_TIMEOUT p] w by simp
  show ?case unfolding h
    using Cons.IH[of t1] p1 kill_identity[of n t1 p1] w
    by (auto split: prod.splits sum.splits error.splits)
qed

lemma shutdown_agents_identity:
  "map identity_of (fst (snd (shutdown_agents t ps))) = map identity_of ps"
  using wait_all_identity[of t "fst (terminate_all t ps)"] terminate_all_identity[of t ps]
  by (auto simp: shutdown_agents_def split: prod.splits)








lemma monitor_processes_cases:
  assumes "monitor_processes fuel intr t0 ps = Some r"
  obtains (natural) t ps' rep lg where
      "monitor_loop fuel intr t0 ps {} [] = Some (False, t, ps', rep, lg)"
      "r = \<lparr>cancelled = False, finished_at = t, handles = ps', reported = rep, logged = lg, events = []\<rparr>"
  | (interrupted) t ps' rep lg where
      "monitor_loop fuel intr t0 ps {} [] = Some (True, t, ps', rep, lg)"
      "r = \<lparr>cancelled = True, finished_at = fst (shutdown_agents t ps'),
             handles = fst (snd (shutdown_agents t ps')), reported = rep,
             logged = lg @ (INFO, ''Received interrupt signal'', []) # fst (snd (snd (shutdown_agents t ps'))),
             events = snd (snd (snd (shutdown_agents t ps')))\<rparr>"
proof -
  obtain b t ps' rep lg where l: "monitor_loop fuel intr t0 ps {} [] = Some (b, t, ps', rep, lg)"
    using assms by (auto simp: monitor_processes_def split: option.splits)
  show ?thesis
  proof (cases b)
    case True
    with l have l': "monitor_loop fuel intr t0 ps {} [] = Some (True, t, ps', rep, lg)"
      by simp
    from l' assms have "r = \<lparr>cancelled = True, finished_at = fst (shutdown_agents t ps'),
             handles = fst (snd (shutdown_agents t ps')), reported = rep,
             logged = lg @ (INFO, ''Received interrupt signal'', []) # fst (snd (snd (shutdown_agents t ps'))),
             events = snd (snd (snd (shutdown_agents t ps')))\<rparr>"
      by (auto simp: monitor_processes_def split: prod.splits)
    with l' show ?thesis by (rule interrupted)
  next
    case False
    with l have l': "monitor_loop fuel intr t0 ps {} [] = Some (False, t, ps', rep, lg)"
      by simp
    from l' assms have "r = \<lparr>cancelled = False, finished_at = t, handles = ps', reported = rep, logged = lg, events = []\<rparr>"
      by (auto simp: monitor_processes_def)
    with l' show ?thesis by (rule natural)
  qed
qed















text \<open>
  Claim C10. \<^verbatim>\<open>shutdown_agents\<close> and \<^verbatim>\<open>monitor_processes\<close> return the handles they were
  given, in the same order, each with the same name, pid and child: only the state of
  the \<^verbatim>\<open>Popen\<close> objects (unread output, \<^verbatim>\<open>returncode\<close>, signals sent) has changed.
\<close>

theorem handle_set_unchanged:
  "map identity_of (fst (snd (shutdown_agents t ps))) = map identity_of ps
   \<and> (monitor_processes fuel intr t0 ps = Some r \<longrightarrow> map identity_of (handles r) = map identity_of ps)"
proof (intro conjI impI)
  show "map identity_of (fst (snd (shutdown_agents t ps))) = map identity_of ps"
    by (rule shutdown_agents_identity)
next
  assume "monitor_processes fuel intr t0 ps = Some r"
  then show "map identity_of (handles r) = map identity_of ps"
  proof (cases rule: monitor_processes_cases)
    case (natural t ps' rep lg)
    from monitor_loop_inv[OF natural(1)] show ?thesis
      unfolding natural(2) by simp
  next
    case (interrupted t ps' rep lg)
    from monitor_loop_inv[OF interrupted(1)] shutdown_agents_identity[of t ps'] show ?thesis
      unfolding interrupted(2) by simp
  qed
qed

text \<open>A shutdown at time 1, and a run interrupted in the sleep after the cycle at time 1.\<close>

theorem handle_set_unchanged_witness:
  "map identity_of (fst (snd (shutdown_agents 1
       [(''a'', Popen (Some 1, 1, None, ''crash'') 0), (''b'', Popen (None, 0, Some 2, '''') 1)]))) =
     map identity_of [(''a'', Popen (Some 1, 1, None, ''crash'') 0), (''b'', Popen (None, 0, Some 2, '''') 1)]
   \<and> map_option (\<lambda>r. map identity_of (handles r))
        (monitor_processes 5 (Some (1, 1)) 0
           [(''a'', Popen (Some 1, 1, None, ''crash'') 0), (''b'', Popen (None, 0, Some 2, '''') 1)]) =
      Some (map identity_of [(''a'', Popen (Some 1, 1, None, ''crash'') 0), (''b'', Popen (None, 0, Some 2, '''') 1)])"
proof -
  let ?ps = "[(''a'', Popen (Some 1, 1, None, ''crash'') 0), (''b'', Popen (None, 0, Some 2, '''') 1)]"
  let ?r = "\<lparr>cancelled = True, finished_at = 3,
     handles =
       [(''a'', \<lparr>pid = 0, exits_at = Some 1, exit_status = 1, term_delay = None,
            stdout = Some [], returncode = Some 1, terminated_at = None, killed_at = None\<rparr>),
        (''b'', \<lparr>pid = 1, exits_at = None, exit_status = 0, term_delay = Some 2,
            stdout = Some [], returncode = Some (- 15), terminated_at = Some 1, killed_at = None\<rparr>)],
     reported = {''a''},
     logged =
       [(WARNING, ''Agent %s exited with code %d'', [Str ''a'', Num 1]),
        (WARNING, ''  %s: %s'', [Str ''a'', Str ''crash'']),
        (INFO, ''Received interrupt signal'', []),
        (INFO, ''Shutting down %d agent(s)...'', [Num 2]),
        (DEBUG, ''Terminating %s'', [Str ''b'']),
        (DEBUG, ''%s terminated'', [Str ''a'']),
        (DEBUG, ''%s terminated'', [Str ''b'']),
        (INFO, ''Shutdown complete'', [])],
     events = [(1, 1, Terminate), (1, 0, Wait), (1, 1, Wait)]\<rparr>"
  have run: "monitor_processes 5 (Some (1, 1)) 0 ?ps = Some ?r"
    by code_simp
  from handle_set_unchanged[of 1 ?ps 5 "Some (1, 1)" 0 ?r] run
  show ?thesis by simp
qed

subsection \<open>Reports\<close>

text \<open>Splitting at line feeds is undone by joining, and stripping leaves a trimmed text as it is.\<close>

lemma split_nl_nonempty: "split_nl s \<noteq> []"
  by (induction s) (auto split: list.splits)

lemma join_split_nl: "join_nl (split_nl s) = s"
proof (induction s)
  case Nil
  show ?case by simp
next
  case (Cons c s)
  obtain l ls where sp: "split_nl s = l # ls"
    using split_nl_nonempty[of s] by (cases "split_nl s") auto
  show ?case
  proof (cases "c = CHR 0x0A")
    case True
    with Cons sp show ?thesis by simp
  next
    case False
    with Cons sp show ?thesis by (cases ls) auto
  qed
qed

lemma split_nl_no_newline: "l \<in> set (split_nl s) \<Longrightarrow> CHR 0x0A \<notin> set l"
proof (induction s arbitrary: l)
  case Nil
  then show ?case by simp
next
  case (Cons c s)
  obtain l0 ls where sp: "split_nl s = l0 # ls"
    using split_nl_nonempty[of s] by (cases "split_nl s") auto
  from Cons sp show ?case
    by (cases "c = CHR 0x0A") auto
qed

lemma dropWhile_hd: "s \<noteq> [] \<Longrightarrow> \<not> P (hd s) \<Longrightarrow> dropWhile P s = s"
  by (cases s) auto

lemma strip_untrimmed:
  assumes "untrimmed s"
  shows "strip s = unterminated s"
proof -
  from assms have ne: "s \<noteq> []" and h: "\<not> isspace (hd s)"
    and u: "unterminated s \<noteq> []" and l: "\<not> isspace (last (unterminated s))"
    by (auto simp: untrimmed_def unterminated_def split: if_splits)
  have nl: "isspace (CHR 0x0A)" by (simp add: isspace_def)
  have 1: "dropWhile isspace s = s" using ne h by (rule dropWhile_hd)
  have 2: "dropWhile isspace (rev s) = rev (unterminated s)"
  proof (cases "last s = CHR 0x0A")
    case True
    with ne have s: "s = unterminated s @ [CHR 0x0A]"
      using append_butlast_last_id[of s] by (simp add: unterminated_def)
    have "dropWhile isspace (rev (unterminated s @ [CHR 0x0A])) = dropWhile isspace (rev (unterminated s))"
      using nl by simp
    also have "\<dots> = rev (unterminated s)"
      using u l by (intro dropWhile_hd) (simp_all add: hd_rev)
    finally show ?thesis using s by simp
  next
    case False
    then have s: "unterminated s = s" by (simp add: unterminated_def)
    show ?thesis unfolding s
      using ne l s by (intro dropWhile_hd) (simp_all add: hd_rev)
  qed
  show ?thesis by (simp add: strip_def 1 2)
qed

lemma handle_dead_agent_log:
  "fst (handle_dead_agent name proc) =
     status_record name proc #
     (case stdout proc of
        None \<Rightarrow> []
      | Some output \<Rightarrow> if output = [] then [] else map (output_record name) (split_nl (strip output)))"
  by (simp add: handle_dead_agent_def status_record_def output_record_def Let_def split: option.splits)

text \<open>
  Claim C7, amended. The report of a dead process begins with the record of its exit
  status under its name. With no pipe or with empty output that is the whole report.
  Otherwise it is followed by one record under the process's name for each line of the
  output after the whitespace at its two ends (blank lines included) has been
  stripped: there is at least one such record, the records' lines hold no line feed
  and, joined by line feeds, give the stripped output. So an output of whitespace only
  gives one record with an empty line. For an output that neither begins nor ends with
  whitespace, its final line feed apart, the lines are exactly the lines of the output.
\<close>

theorem report_content:
  "hd (fst (handle_dead_agent name proc)) = status_record name proc
   \<and> (stdout proc = None \<or> stdout proc = Some [] \<longrightarrow> tl (fst (handle_dead_agent name proc)) = [])
   \<and> (stdout proc = Some output \<and> output \<noteq> [] \<longrightarrow>
        (\<exists>ls. tl (fst (handle_dead_agent name proc)) = map (output_record name) ls
              \<and> ls \<noteq> []
              \<and> join_nl ls = strip output
              \<and> (\<forall>l \<in> set ls. CHR 0x0A \<notin> set l)
              \<and> (strip output = [] \<longrightarrow> ls = [[]])
              \<and> (untrimmed output \<longrightarrow> ls = lines_of output)))"
proof (intro conjI impI)
  show "hd (fst (handle_dead_agent name proc)) = status_record name proc"
    by (simp add: handle_dead_agent_log)
next
  assume "stdout proc = None \<or> stdout proc = Some []"
  then show "tl (fst (handle_dead_agent name proc)) = []"
    by (auto simp: handle_dead_agent_log)
next
  assume a: "stdout proc = Some output \<and> output \<noteq> []"
  have u: "untrimmed output \<longrightarrow> split_nl (strip output) = lines_of output"
    using a by (simp add: strip_untrimmed lines_of_def)
  have e: "strip output = [] \<longrightarrow> split_nl (strip output) = [[]]"
    by simp
  from u e show "\<exists>ls. tl (fst (handle_dead_agent name proc)) = map (output_record name) ls
              \<and> ls \<noteq> []
              \<and> join_nl ls = strip output
              \<and> (\<forall>l \<in> set ls. CHR 0x0A \<notin> set l)
              \<and> (strip output = [] \<longrightarrow> ls = [[]])
              \<and> (untrimmed output \<longrightarrow> ls = lines_of output)"
    using a split_nl_no_newline[of _ "strip output"] split_nl_nonempty[of "strip output"]
    by (intro exI[of _ "split_nl (strip output)"]) (simp add: handle_dead_agent_log join_split_nl)
qed

text \<open>A process with two lines of output, one with none, and one that wrote a space and a line feed.\<close>

theorem report_content_witness:
  "fst (handle_dead_agent ''X'' (Popen (Some 1, 1, None, ''schema error\<newline>at line 3\<newline>'') 0\<lparr>returncode := Some 1\<rparr>)) =
     [(WARNING, ''Agent %s exited with code %d'', [Str ''X'', Num 1]),
      (WARNING, ''  %s: %s'', [Str ''X'', Str ''schema error'']),
      (WARNING, ''  %s: %s'', [Str ''X'', Str ''at line 3''])]
   \<and> untrimmed ''schema error\<newline>at line 3\<newline>''
   \<and> lines_of ''schema error\<newline>at line 3\<newline>'' = [''schema error'', ''at line 3'']
   \<and> fst (handle_dead_agent ''Y'' (Popen (Some 1, 0, None, []) 1\<lparr>returncode := Some 0\<rparr>)) =
     [(WARNING, ''Agent %s exited with code %d'', [Str ''Y'', Num 0])]
   \<and> strip '' \<newline>'' = []
   \<and> fst (handle_dead_agent ''Z'' (Popen (Some 1, 0, None, '' \<newline>'') 2\<lparr>returncode := Some 0\<rparr>)) =
     [(WARNING, ''Agent %s exited with code %d'', [Str ''Z'', Num 0]),
      (WARNING, ''  %s: %s'', [Str ''Z'', Str []])]"
proof -
  let ?out = "''schema error\<newline>at line 3\<newline>''"
  let ?p = "Popen (Some 1, 1, None, ?out) 0\<lparr>returncode := Some 1\<rparr>"
  let ?z = "Popen (Some 1, 0, None, '' \<newline>'') 2\<lparr>returncode := Some 0\<rparr>"
  have s: "stdout ?p = Some ?out \<and> ?out \<noteq> []" by (simp add: Popen_def)
  have u: "untrimmed ?out" by code_simp
  have l: "lines_of ?out = [''schema error'', ''at line 3'']" by code_simp
  from report_content[of "''X''" ?p ?out] s u
  have t: "tl (fst (handle_dead_agent ''X'' ?p)) = map (output_record ''X'') (lines_of ?out)"
    by auto
  from report_content[of "''X''" ?p ?out]
  have h: "hd (fst (handle_dead_agent ''X'' ?p)) = status_record ''X'' ?p"
    by simp
  have ne: "fst (handle_dead_agent ''X'' ?p) \<noteq> []"
    by (simp add: handle_dead_agent_log)
  have x: "fst (handle_dead_agent ''X'' ?p) =
      status_record ''X'' ?p # map (output_record ''X'') (lines_of ?out)"
    using h t ne by (metis list.collapse)
  have y: "fst (handle_dead_agent ''Y'' (Popen (Some 1, 0, None, []) 1\<lparr>returncode := Some 0\<rparr>)) =
     [(WARNING, ''Agent %s exited with code %d'', [Str ''Y'', Num 0])]"
    by code_simp
  have sz: "stdout ?z = Some '' \<newline>'' \<and> '' \<newline>'' \<noteq> []" by (simp add: Popen_def)
  have ez: "strip '' \<newline>'' = []" by code_simp
  from report_content[of "''Z''" ?z "'' \<newline>''"] sz ez
  have tz: "tl (fst (handle_dead_agent ''Z'' ?z)) = map (output_record ''Z'') [[]]"
    by auto
  from report_content[of "''Z''" ?z "'' \<newline>''"]
  have hz: "hd (fst (handle_dead_agent ''Z'' ?z)) = status_record ''Z'' ?z"
    by simp
  have nz: "fst (handle_dead_agent ''Z'' ?z) \<noteq> []"
    by (simp add: handle_dead_agent_log)
  have z: "fst (handle_dead_agent ''Z'' ?z) = status_record ''Z'' ?z # map (output_record ''Z'') [[]]"
    using hz tz nz by (metis list.collapse)
  show ?thesis
    unfolding x z l using u y ez by (simp add: status_record_def output_record_def Popen_def)
qed

text \<open>
  Claim C7 as stated fails: of the two lines of this output, the first, an empty one,
  is not logged, and the second is logged without its indentation.
\<close>

theorem report_content_counterexample:
  "lines_of ''\<newline>  usage: agent.py\<newline>'' = [[], ''  usage: agent.py'']
   \<and> fst (handle_dead_agent ''X''
          (Popen (Some 1, 2, None, ''\<newline>  usage: agent.py\<newline>'') 0\<lparr>returncode := Some 2\<rparr>)) =
     [(WARNING, ''Agent %s exited with code %d'', [Str ''X'', Num 2]),
      (WARNING, ''  %s: %s'', [Str ''X'', Str ''usage: agent.py''])]"
  by code_simp

subsection \<open>Launcher and main\<close>

text \<open>
  The launcher's loop appends one handle, with the next pid, for each identifier whose
  file exists. Then \<^verbatim>\<open>main\<close> along its two ways past the configuration: stopped at the
  gate, or through the launcher into the monitor.
\<close>

lemma start_each_Cons:
  "start_each w d s u r a (y # rest) ps =
     (if \<not> path_exists w (Div d y) then
        apsnd ((#) (WARNING, ''Agent file not found, skipping: %s'', [Str y]))
          (start_each w d s u r a rest ps)
      else
        apsnd (\<lambda>lg. (INFO, ''Starting %s'', [Str y]) # snd (start_agent_process w s y u r a (length ps)) @ lg)
          (start_each w d s u r a rest (ps @ [(y, fst (start_agent_process w s y u r a (length ps)))])))"
  by (auto split: prod.splits)

declare start_each.simps(2) [simp del]

lemma start_agent_process_pid: "pid (fst (start_agent_process w s y u r a i)) = i"
  by (simp add: start_agent_process_def Let_def Popen_def split: prod.splits)

lemma start_agent_process_log:
  "skip_warnings (snd (start_agent_process w s y u r a i)) = []"
  by (simp add: start_agent_process_def Let_def skip_warnings_def)

lemma start_each_names:
  "map fst (fst (start_each w d s u r a agnts ps)) = map fst ps @ found w d agnts"
  by (induction agnts arbitrary: ps) (simp_all add: start_each_Cons found_def)

lemma start_each_pids:
  assumes "map (pid \<circ> snd) ps = [0 ..< length ps]"
  shows "map (pid \<circ> snd) (fst (start_each w d s u r a agnts ps)) =
           [0 ..< length (fst (start_each w d s u r a agnts ps))]"
  using assms
proof (induction agnts arbitrary: ps)
  case Nil
  then show ?case by simp
next
  case (Cons y rest)
  show ?case
  proof (cases "path_exists w (Div d y)")
    case True
    let ?ps = "ps @ [(y, fst (start_agent_process w s y u r a (length ps)))]"
    have "map (pid \<circ> snd) ?ps = [0 ..< length ?ps]"
      using Cons.prems by (simp add: start_agent_process_pid comp_def)
    from Cons.IH[OF this] True show ?thesis
      by (simp add: start_each_Cons)
  next
    case False
    with Cons.IH[OF Cons.prems] show ?thesis
      by (simp add: start_each_Cons)
  qed
qed

lemma start_each_warnings:
  "skip_warnings (snd (start_each w d s u r a agnts ps)) =
     map (\<lambda>y. (WARNING, ''Agent file not found, skipping: %s'', [Str y])) (missing w d agnts)"
proof (induction agnts arbitrary: ps)
  case Nil
  show ?case by (simp add: skip_warnings_def missing_def)
next
  case (Cons y rest)
  have app: "skip_warnings (xs @ ys) = skip_warnings xs @ skip_warnings ys" for xs ys
    by (simp add: skip_warnings_def)
  have cons: "skip_warnings (e # ys) =
      (if fst (snd e) = ''Agent file not found, skipping: %s'' then e # skip_warnings ys else skip_warnings ys)" for e ys
    by (simp add: skip_warnings_def)
  show ?case
    by (simp add: start_each_Cons Cons.IH missing_def app cons start_agent_process_log)
qed

lemma main_agents:
  "(if filter (\<lambda>a. a \<notin> set av) ags \<noteq> [] then filter (\<lambda>a. a \<in> set av) ags else ags) =
     filter (\<lambda>a. a \<in> set av) ags"
  by (auto simp: filter_empty_conv filter_id_conv)

lemma main_gate_closed:
  assumes "configured w cfg" and "valid_agents w cfg \<noteq> []"
    and "\<not> check_crossbar_connection w (crossbar_url cfg)"
    and "case i of Line response \<Rightarrow> lower response \<noteq> ''y'' | EOFError \<Rightarrow> True | KeyboardInterrupt \<Rightarrow> True"
  shows "\<exists>out. main fuel (w\<lparr>input := i\<rparr>) = Some out
            \<and> exit_code out = EXIT_USER_ABORT \<and> children out = [] \<and> calls out = []
            \<and> printed out = (case i of Line response \<Rightarrow> [] | EOFError \<Rightarrow> [([], [])] | KeyboardInterrupt \<Rightarrow> [([], [])])
            \<and> Some (log_records out) = map_option log_records (main fuel (w\<lparr>input := EOFError\<rparr>))"
proof -
  from assms(1) have c: "path_exists w (arg_agent_dir w)" "\<not> arg_list_agents w"
    and l: "load_config w (config_path w) = Inr cfg"
    by (simp_all add: configured_def)
  from assms(2) have v: "filter (\<lambda>a. a \<in> set (discover_agents w (arg_agent_dir w))) (agents cfg) \<noteq> []"
    by (simp add: valid_agents_def)
  show ?thesis
  proof (cases "arg_config_is_absolute w")
    case True
    with l have l': "load_config w (Path (arg_config w)) = Inr cfg"
      by (simp add: config_path_def)
    from assms(4) show ?thesis
      by (cases i) (simp_all add: main_def Let_def c v l' True assms(3) main_agents exit_with_def)
  next
    case False
    with l have l': "load_config w (Div (SCRIPT_DIR w) (arg_config w)) = Inr cfg"
      by (simp add: config_path_def)
    from assms(4) show ?thesis
      by (cases i) (simp_all add: main_def Let_def c v l' False assms(3) main_agents exit_with_def)
  qed
qed

lemma main_after_launch:
  assumes "configured w cfg" and "valid_agents w cfg \<noteq> []" and "gate_open w cfg"
    and "start_agents w (arg_agent_dir w) (valid_agents w cfg) (crossbar_url cfg) (realm cfg)
           (address_root cfg) = Inr (ps, lg5)"
  shows "if ps = [] then
           (\<exists>out. main fuel w = Some out \<and> exit_code out = EXIT_NO_AGENTS \<and> children out = []
                  \<and> calls out = [])
         else
           (case monitor_processes fuel (interrupt w) 0 ps of
              None \<Rightarrow> main fuel w = None
            | Some r \<Rightarrow>
                (\<exists>out. main fuel w = Some out \<and> exit_code out = EXIT_SUCCESS
                       \<and> children out = handles r \<and> calls out = events r))"
proof -
  from assms(1) have c: "path_exists w (arg_agent_dir w)" "\<not> arg_list_agents w"
    and l: "load_config w (config_path w) = Inr cfg"
    by (simp_all add: configured_def)
  from assms(2) have v: "filter (\<lambda>a. a \<in> set (discover_agents w (arg_agent_dir w))) (agents cfg) \<noteq> []"
    by (simp add: valid_agents_def)
  note s = assms(4)[unfolded valid_agents_def]
  have s2: "start_agents w (arg_agent_dir w) (agents cfg) (crossbar_url cfg) (realm cfg)
              (address_root cfg) = Inr (ps, lg5)"
    if "filter (\<lambda>a. a \<notin> set (discover_agents w (arg_agent_dir w))) (agents cfg) = []"
  proof -
    from that have "filter (\<lambda>a. a \<in> set (discover_agents w (arg_agent_dir w))) (agents cfg) = agents cfg"
      by (simp add: filter_empty_conv filter_id_conv)
    with s show ?thesis by simp
  qed
  have g: "check_crossbar_connection w (crossbar_url cfg) \<or>
           (\<exists>response. input w = Line response \<and> lower response = ''y'')"
    using assms(3) by (cases "input w") (auto simp: gate_open_def)
  show ?thesis
  proof (cases "arg_config_is_absolute w")
    case True
    with l have l': "load_config w (Path (arg_config w)) = Inr cfg"
      by (simp add: config_path_def)
    from g show ?thesis
      by (cases "monitor_processes fuel (interrupt w) 0 ps")
         (auto simp: main_def Let_def c v l' True main_agents s s2 exit_with_def)
  next
    case False
    with l have l': "load_config w (Div (SCRIPT_DIR w) (arg_config w)) = Inr cfg"
      by (simp add: config_path_def)
    from g show ?thesis
      by (cases "monitor_processes fuel (interrupt w) 0 ps")
         (auto simp: main_def Let_def c v l' False main_agents s s2 exit_with_def)
  qed
qed

lemma start_agents_result:
  assumes "path_exists w (Div agent_dir ''agent.py'')"
  shows "start_agents w agent_dir agnts url rlm root =
           Inr (start_each w agent_dir (Div agent_dir ''agent.py'') url rlm root agnts [])"
  using assms by (simp add: start_agents_def Let_def)

lemma start_agents_names:
  assumes "start_agents w agent_dir agnts url rlm root = Inr (ps, lg)"
  shows "map fst ps = found w agent_dir agnts"
proof -
  from assms have "ps = fst (start_each w agent_dir (Div agent_dir ''agent.py'') url rlm root agnts [])"
    by (auto simp: start_agents_def Let_def split: if_splits)
  then show ?thesis by (simp add: start_each_names)
qed

lemma start_agents_pids:
  assumes "start_agents w agent_dir agnts url rlm root = Inr (ps, lg)"
  shows "distinct (map (pid \<circ> snd) ps)"
proof -
  from assms have "ps = fst (start_each w agent_dir (Div agent_dir ''agent.py'') url rlm root agnts [])"
    by (auto simp: start_agents_def Let_def split: if_splits)
  then have "map (pid \<circ> snd) ps = [0 ..< length ps]"
    using start_each_pids[of "[]" w agent_dir "Div agent_dir ''agent.py''" url rlm root agnts] by simp
  then show ?thesis by simp
qed

lemma main_children:
  assumes "main fuel w = Some out"
  shows "children out = [] \<or>
         (\<exists>cfg ps lg r. load_config w (config_path w) = Inr cfg
            \<and> start_agents w (arg_agent_dir w) (valid_agents w cfg) (crossbar_url cfg) (realm cfg)
                 (address_root cfg) = Inr (ps, lg)
            \<and> monitor_processes fuel (interrupt w) 0 ps = Some r \<and> children out = handles r)"
proof (cases "path_exists w (arg_agent_dir w) \<and> \<not> arg_list_agents w")
  case False
  with assms show ?thesis
    by (auto simp: main_def Let_def exit_with_def split: if_splits)
next
  case True
  show ?thesis
  proof (cases "load_config w (config_path w)")
    case (Inl code)
    with True assms show ?thesis
      by (auto simp: main_def Let_def exit_with_def config_path_def split: if_splits)
  next
    case (Inr cfg)
    with True have c: "configured w cfg" by (simp add: configured_def)
    show ?thesis
    proof (cases "valid_agents w cfg \<noteq> [] \<and> gate_open w cfg")
      case False
      then consider "valid_agents w cfg = []" | "valid_agents w cfg \<noteq> []" "\<not> gate_open w cfg"
        by blast
      then show ?thesis
      proof cases
        case 1
        with True Inr assms show ?thesis
          by (auto simp: main_def Let_def exit_with_def config_path_def valid_agents_def main_agents
              split: if_splits)
      next
        case 2
        from 2(2) have nc: "\<not> check_crossbar_connection w (crossbar_url cfg)"
          and i: "case input w of Line response \<Rightarrow> lower response \<noteq> ''y'' | EOFError \<Rightarrow> True | KeyboardInterrupt \<Rightarrow> True"
          by (auto simp: gate_open_def split: input_result.splits)
        from main_gate_closed[OF c 2(1) nc i, of fuel] assms show ?thesis
          by auto
      qed
    next
      case v: True
      show ?thesis
      proof (cases "start_agents w (arg_agent_dir w) (valid_agents w cfg) (crossbar_url cfg) (realm cfg)
                      (address_root cfg)")
        case (Inl e)
        obtain code lg5 where e: "e = (code, lg5)" by (cases e)
        from v have g: "check_crossbar_connection w (crossbar_url cfg) \<or>
           (\<exists>response. input w = Line response \<and> lower response = ''y'')"
          by (cases "input w") (auto simp: gate_open_def)
        have s2: "start_agents w (arg_agent_dir w) (agents cfg) (crossbar_url cfg) (realm cfg)
              (address_root cfg) = Inl (code, lg5)"
          if "filter (\<lambda>a. a \<notin> set (discover_agents w (arg_agent_dir w))) (agents cfg) = []"
        proof -
          from that have "filter (\<lambda>a. a \<in> set (discover_agents w (arg_agent_dir w))) (agents cfg) = agents cfg"
            by (simp add: filter_empty_conv filter_id_conv)
          with Inl e show ?thesis by (simp add: valid_agents_def)
        qed
        from v have v': "filter (\<lambda>a. a \<in> set (discover_agents w (arg_agent_dir w))) (agents cfg) \<noteq> []"
          by (simp add: valid_agents_def)
        from True Inr assms g Inl[unfolded e valid_agents_def] v' show ?thesis
          by (auto simp: main_def Let_def exit_with_def config_path_def main_agents s2 split: if_splits)
      next
        case (Inr res)
        obtain ps lg5 where res: "res = (ps, lg5)" by (cases res)
        from v main_after_launch[OF c _ _ Inr[unfolded res], of fuel] assms
        have "if ps = [] then children out = []
              else (\<exists>r. monitor_processes fuel (interrupt w) 0 ps = Some r \<and> children out = handles r)"
          by (auto split: option.splits if_splits)
        with \<open>load_config w (config_path w) = Inr cfg\<close> Inr res show ?thesis
          by (cases "ps = []") auto
      qed
    qed
  qed
qed

text \<open>
  Claim C6. When \<^verbatim>\<open>agent.py\<close> exists, \<^verbatim>\<open>start_agents\<close> returns one handle for each
  identifier whose file exists, in the order of the identifiers, and logs one warning
  for each identifier whose file does not exist. When \<^verbatim>\<open>main\<close> gets as far as the
  launcher and the launcher returns, an empty result ends the run with
  \<^verbatim>\<open>EXIT_NO_AGENTS\<close> and no child process; any other result is handed to the monitor,
  and the run ends with \<^verbatim>\<open>EXIT_SUCCESS\<close> when the monitor returns. (Without \<^verbatim>\<open>agent.py\<close>
  the launcher does not get to its loop: it exits with \<^verbatim>\<open>EXIT_AGENT_DIR_NOT_FOUND\<close>.)
\<close>

theorem missing_agent_files_are_skipped:
  "(path_exists w (Div agent_dir ''agent.py'') \<longrightarrow>
      (\<exists>ps lg. start_agents w agent_dir agnts url rlm root = Inr (ps, lg)
         \<and> map fst ps = found w agent_dir agnts
         \<and> skip_warnings lg =
             map (\<lambda>y. (WARNING, ''Agent file not found, skipping: %s'', [Str y]))
               (missing w agent_dir agnts)))
   \<and> (configured w cfg \<and> valid_agents w cfg \<noteq> [] \<and> gate_open w cfg
        \<and> start_agents w (arg_agent_dir w) (valid_agents w cfg) (crossbar_url cfg) (realm cfg)
             (address_root cfg) = Inr (started, lg') \<longrightarrow>
        (if started = [] then
           (\<exists>out. main fuel w = Some out \<and> exit_code out = EXIT_NO_AGENTS \<and> children out = []
                  \<and> calls out = [])
         else
           (case monitor_processes fuel (interrupt w) 0 started of
              None \<Rightarrow> main fuel w = None
            | Some r \<Rightarrow>
                (\<exists>out. main fuel w = Some out \<and> exit_code out = EXIT_SUCCESS
                       \<and> children out = handles r \<and> calls out = events r))))"
proof (intro conjI impI)
  assume a: "path_exists w (Div agent_dir ''agent.py'')"
  show "\<exists>ps lg. start_agents w agent_dir agnts url rlm root = Inr (ps, lg)
         \<and> map fst ps = found w agent_dir agnts
         \<and> skip_warnings lg =
             map (\<lambda>y. (WARNING, ''Agent file not found, skipping: %s'', [Str y]))
               (missing w agent_dir agnts)"
    unfolding start_agents_result[OF a]
    by (intro exI[of _ "fst (start_each w agent_dir (Div agent_dir ''agent.py'') url rlm root agnts [])"]
              exI[of _ "snd (start_each w agent_dir (Div agent_dir ''agent.py'') url rlm root agnts [])"])
       (simp add: start_each_names start_each_warnings)
next
  assume "configured w cfg \<and> valid_agents w cfg \<noteq> [] \<and> gate_open w cfg
        \<and> start_agents w (arg_agent_dir w) (valid_agents w cfg) (crossbar_url cfg) (realm cfg)
             (address_root cfg) = Inr (started, lg')"
  then show "if started = [] then
           (\<exists>out. main fuel w = Some out \<and> exit_code out = EXIT_NO_AGENTS \<and> children out = []
                  \<and> calls out = [])
         else
           (case monitor_processes fuel (interrupt w) 0 started of
              None \<Rightarrow> main fuel w = None
            | Some r \<Rightarrow>
                (\<exists>out. main fuel w = Some out \<and> exit_code out = EXIT_SUCCESS
                       \<and> children out = handles r \<and> calls out = events r))"
    using main_after_launch[of w cfg started lg' fuel] by blast
qed

text \<open>
  A configuration with one missing file and one present, and a configuration with the
  missing file only.
\<close>

theorem missing_agent_files_are_skipped_witness:
  "map_option (\<lambda>out. (exit_code out, map fst (children out), skip_warnings (log_records out)))
     (main 3 (demo_world [''gone.yaml'', ''a.yaml''])) =
   Some (0, [''a.yaml''], [(WARNING, ''Agent file not found, skipping: %s'', [Str ''gone.yaml''])])
   \<and> map_option (\<lambda>out. (exit_code out, children out)) (main 3 (demo_world [''gone.yaml''])) =
   Some (3, [])"
proof -
  let ?w = "demo_world [''gone.yaml'', ''a.yaml'']"
  let ?cfg = "demo_config [''gone.yaml'', ''a.yaml'']"
  have a: "path_exists ?w (Div (arg_agent_dir ?w) ''agent.py'')"
    by (simp add: demo_world_def)
  have c: "configured ?w ?cfg \<and> valid_agents ?w ?cfg \<noteq> [] \<and> gate_open ?w ?cfg"
    by (simp add: demo_world_def demo_config_def configured_def valid_agents_def gate_open_def)
  from missing_agent_files_are_skipped[of ?w "arg_agent_dir ?w" "valid_agents ?w ?cfg"
         "crossbar_url ?cfg" "realm ?cfg" "address_root ?cfg"] a
  obtain ps lg where s: "start_agents ?w (arg_agent_dir ?w) (valid_agents ?w ?cfg)
      (crossbar_url ?cfg) (realm ?cfg) (address_root ?cfg) = Inr (ps, lg)"
    and n: "map fst ps = found ?w (arg_agent_dir ?w) (valid_agents ?w ?cfg)"
    by blast
  have f: "found ?w (arg_agent_dir ?w) (valid_agents ?w ?cfg) = [''a.yaml'']"
    by (simp add: demo_world_def demo_config_def found_def valid_agents_def)
  from n f have ne: "ps \<noteq> []" by auto
  from missing_agent_files_are_skipped[where w = ?w and cfg = ?cfg and started = ps and lg' = lg and fuel = 3] c s ne
  have "case monitor_processes 3 (interrupt ?w) 0 ps of
          None \<Rightarrow> main 3 ?w = None
        | Some r \<Rightarrow> (\<exists>out. main 3 ?w = Some out \<and> exit_code out = EXIT_SUCCESS
                       \<and> children out = handles r \<and> calls out = events r)"
    by simp
  moreover have "map_option (\<lambda>out. (exit_code out, map fst (children out), skip_warnings (log_records out)))
     (main 3 ?w) =
   Some (0, [''a.yaml''], [(WARNING, ''Agent file not found, skipping: %s'', [Str ''gone.yaml''])])"
    by code_simp
  moreover have "map_option (\<lambda>out. (exit_code out, children out)) (main 3 (demo_world [''gone.yaml''])) =
   Some (3, [])"
    by code_simp
  ultimately show ?thesis by simp
qed

lemma monitor_processes_identity:
  assumes "monitor_processes fuel intr t0 ps = Some r"
  shows "map identity_of (handles r) = map identity_of ps"
  using assms
proof (cases rule: monitor_processes_cases)
  case (natural t ps' rep lg)
  from monitor_loop_inv[OF natural(1)] show ?thesis
    unfolding natural(2) by simp
next
  case (interrupted t ps' rep lg)
  from monitor_loop_inv[OF interrupted(1)] shutdown_agents_identity[of t ps'] show ?thesis
    unfolding interrupted(2) by simp
qed

text \<open>
  Claim C8, amended. The names of the handles are the identifiers given to the launcher
  whose files exist, in order and as often as they are given: they are pairwise
  different when the identifiers are. The monitor and the shutdown leave the sequence
  of names as it is. So a run whose configured agent list has no duplicate never has
  two handles of the same name.
\<close>

theorem handle_names_follow_identifiers:
  "(start_agents w agent_dir agnts url rlm root = Inr (ps, lg) \<longrightarrow>
      map fst ps = found w agent_dir agnts \<and> (distinct agnts \<longrightarrow> distinct (map fst ps)))
   \<and> (monitor_processes fuel intr t0 ps = Some r \<longrightarrow> map fst (handles r) = map fst ps)
   \<and> map fst (fst (snd (shutdown_agents t ps))) = map fst ps
   \<and> (load_config w (config_path w) = Inr cfg \<and> distinct (agents cfg) \<and> main fuel w = Some out \<longrightarrow>
        distinct (map fst (children out)))"
proof (intro conjI impI)
  assume a: "start_agents w agent_dir agnts url rlm root = Inr (ps, lg)"
  then show n: "map fst ps = found w agent_dir agnts"
    by (rule start_agents_names)
  assume "distinct agnts"
  with n show "distinct (map fst ps)"
    by (simp add: found_def)
next
  assume "monitor_processes fuel intr t0 ps = Some r"
  then show "map fst (handles r) = map fst ps"
    by (intro identity_names monitor_processes_identity)
next
  show "map fst (fst (snd (shutdown_agents t ps))) = map fst ps"
    by (intro identity_names shutdown_agents_identity)
next
  assume a: "load_config w (config_path w) = Inr cfg \<and> distinct (agents cfg) \<and> main fuel w = Some out"
  from main_children[of fuel w out] a
  consider "children out = []"
    | started lg' r' where
        "start_agents w (arg_agent_dir w) (valid_agents w cfg) (crossbar_url cfg) (realm cfg)
           (address_root cfg) = Inr (started, lg')"
        "monitor_processes fuel (interrupt w) 0 started = Some r'" "children out = handles r'"
    by auto
  then show "distinct (map fst (children out))"
  proof cases
    case 1
    then show ?thesis by simp
  next
    case 2
    from start_agents_names[OF 2(1)] a have "distinct (map fst started)"
      by (simp add: found_def valid_agents_def)
    moreover have "map fst (handles r') = map fst started"
      using 2(2) by (intro identity_names monitor_processes_identity)
    ultimately show ?thesis using 2(3) by simp
  qed
qed

text \<open>A run of three different identifiers, one of which has no file.\<close>

theorem handle_names_follow_identifiers_witness:
  "map_option (\<lambda>out. map fst (children out)) (main 3 (demo_world [''b.yaml'', ''gone.yaml'', ''a.yaml''])) =
     Some [''b.yaml'', ''a.yaml'']
   \<and> distinct [''b.yaml'', ''a.yaml'']"
proof -
  let ?w = "demo_world [''b.yaml'', ''gone.yaml'', ''a.yaml'']"
  let ?cfg = "demo_config [''b.yaml'', ''gone.yaml'', ''a.yaml'']"
  have run: "map_option (\<lambda>out. map fst (children out)) (main 3 ?w) = Some [''b.yaml'', ''a.yaml'']"
    by code_simp
  then obtain out where out: "main 3 ?w = Some out" by auto
  have h: "load_config ?w (config_path ?w) = Inr ?cfg \<and> distinct (agents ?cfg)"
    by (simp add: demo_world_def demo_config_def)
  from handle_names_follow_identifiers[where w = ?w and cfg = ?cfg and fuel = 3 and out = out] h out
  have "distinct (map fst (children out))" by simp
  with run out show ?thesis by simp
qed

text \<open>
  Claim C8 as stated fails: an agent listed twice in the configuration is started
  twice, and the two handles (pids 0 and 1) have the same name.
\<close>

theorem duplicate_names_counterexample:
  "map_option (\<lambda>out. (exit_code out, map fst (children out), map (pid \<circ> snd) (children out)))
     (main 3 (demo_world [''a.yaml'', ''a.yaml''])) =
   Some (0, [''a.yaml'', ''a.yaml''], [0, 1])"
  by code_simp

text \<open>
  Claim C9. When the run reaches the gate and the crossbar is not reachable, an
  \<^verbatim>\<open>EOFError\<close> or a \<^verbatim>\<open>KeyboardInterrupt\<close> raised by \<^verbatim>\<open>input\<close> ends the run as an answer
  other than \<open>y\<close> does: with exit code \<^verbatim>\<open>EXIT_USER_ABORT\<close>, that is 130, with no child
  process and no call on one, and with the same log. The one difference is the empty
  line that is printed before the exit.
\<close>

theorem eof_and_interrupt_decline:
  assumes "configured w cfg" and "valid_agents w cfg \<noteq> []"
    and "\<not> check_crossbar_connection w (crossbar_url cfg)"
    and "i = EOFError \<or> i = KeyboardInterrupt"
    and "lower response \<noteq> ''y''"
  shows "\<exists>out declined.
           main fuel (w\<lparr>input := i\<rparr>) = Some out
         \<and> main fuel (w\<lparr>input := Line response\<rparr>) = Some declined
         \<and> exit_code out = EXIT_USER_ABORT \<and> EXIT_USER_ABORT = 130
         \<and> children out = [] \<and> calls out = []
         \<and> exit_code declined = exit_code out
         \<and> children declined = children out
         \<and> calls declined = calls out
         \<and> log_records declined = log_records out
         \<and> printed declined = [] \<and> printed out = [([], [])]"
proof -
  from assms(4) have bi:
    "case i of Line response \<Rightarrow> lower response \<noteq> ''y'' | EOFError \<Rightarrow> True | KeyboardInterrupt \<Rightarrow> True"
    by auto
  from assms(5) have br:
    "case Line response of Line response \<Rightarrow> lower response \<noteq> ''y'' | EOFError \<Rightarrow> True | KeyboardInterrupt \<Rightarrow> True"
    by simp
  from main_gate_closed[OF assms(1-3) bi, of fuel] obtain out where
    out: "main fuel (w\<lparr>input := i\<rparr>) = Some out" "exit_code out = EXIT_USER_ABORT"
      "children out = []" "calls out = []" "printed out = [([], [])]"
      "Some (log_records out) = map_option log_records (main fuel (w\<lparr>input := EOFError\<rparr>))"
    using assms(4) by auto
  from main_gate_closed[OF assms(1-3) br, of fuel] obtain declined where
    dec: "main fuel (w\<lparr>input := Line response\<rparr>) = Some declined" "exit_code declined = EXIT_USER_ABORT"
      "children declined = []" "calls declined = []" "printed declined = []"
      "Some (log_records declined) = map_option log_records (main fuel (w\<lparr>input := EOFError\<rparr>))"
    by auto
  from out(6) dec(6) have "log_records declined = log_records out"
    by (metis option.inject)
  with out dec show ?thesis
    by (simp add: EXIT_USER_ABORT_def)
qed

text \<open>The gate with an end of input, and with the answer \<open>no\<close>.\<close>

theorem eof_and_interrupt_decline_witness:
  "map_option (\<lambda>out. (exit_code out, children out, calls out, printed out))
     (main 3 (demo_world [''a.yaml'']\<lparr>check_crossbar_connection := (\<lambda>url. False), input := EOFError\<rparr>)) =
     Some (130, [], [], [([], [])])
   \<and> map_option (\<lambda>out. (exit_code out, children out, calls out, printed out))
     (main 3 (demo_world [''a.yaml'']\<lparr>check_crossbar_connection := (\<lambda>url. False), input := Line ''no''\<rparr>)) =
     Some (130, [], [], [])
   \<and> map_option log_records
     (main 3 (demo_world [''a.yaml'']\<lparr>check_crossbar_connection := (\<lambda>url. False), input := EOFError\<rparr>)) =
     map_option log_records
     (main 3 (demo_world [''a.yaml'']\<lparr>check_crossbar_connection := (\<lambda>url. False), input := Line ''no''\<rparr>))"
proof -
  let ?w = "demo_world [''a.yaml'']\<lparr>check_crossbar_connection := (\<lambda>url. False)\<rparr>"
  let ?cfg = "demo_config [''a.yaml'']"
  have h1: "configured ?w ?cfg"
    by (simp add: demo_world_def demo_config_def configured_def config_path_def)
  have h2: "valid_agents ?w ?cfg \<noteq> []"
    by (simp add: demo_world_def demo_config_def valid_agents_def)
  have h3: "\<not> check_crossbar_connection ?w (crossbar_url ?cfg)"
    by simp
  have h4: "EOFError = EOFError \<or> EOFError = KeyboardInterrupt"
    by simp
  have h5: "lower ''no'' \<noteq> ''y''"
    by (simp add: lower_def)
  from eof_and_interrupt_decline[OF h1 h2 h3 h4 h5, of 3]
  show ?thesis
    by (auto simp: EXIT_USER_ABORT_def)
qed

end
